theory Spec2Isabelle
  imports Complex_Main "HOL-Library.Product_Lexorder" "HOL-Library.Sublist" "HOL-Library.Multiset"
begin

text \<open>
  The bike-sharing pipeline of \<open>dags/bike_sharing_etl.py\<close>: the stages
  \<open>extract_and_validate\<close>, \<open>transform_clean_and_denormalize\<close>,
  \<open>transform_feature_engineering\<close> and \<open>transform_aggregations\<close> as functions on
  typed tables. A table is the list of its rows; the hand-over of a table from one stage
  to the next (its JSON text in the scheduler's store) and the log lines are left
  out. A stage that raises returns the error as a value. A missing value of a column
  is \<open>None\<close>; the count columns are \<open>int64\<close>, and their sums wrap around.
\<close>

section \<open>Calendar dates\<close>

text \<open>
  The pipeline keeps \<open>dteday\<close> as a pandas timestamp at midnight. A date is the triple
  (year, month, day); the lexicographic order on triples is the chronological order, so
  \<open>min\<close> and \<open>max\<close> on dates and sorting by date are those of the product order.
\<close>

type_synonym date = "int \<times> int \<times> int"

definition dt_year :: "date \<Rightarrow> int" where
  "dt_year d = fst d"

definition dt_month :: "date \<Rightarrow> int" where
  "dt_month d = fst (snd d)"

definition dt_day :: "date \<Rightarrow> int" where
  "dt_day d = snd (snd d)"

text \<open>
  \<open>dt.isocalendar()\<close> is library code. It is modelled by the ISO-8601 computation of
  Python's \<open>datetime.date.isocalendar\<close>: proleptic Gregorian ordinals, the Monday that
  starts ISO week 1 of a year, and the two year-boundary adjustments.
\<close>

definition is_leap :: "int \<Rightarrow> bool" where
  "is_leap y = (y mod 4 = 0 \<and> (y mod 100 \<noteq> 0 \<or> y mod 400 = 0))"

definition days_before_year :: "int \<Rightarrow> int" where
  "days_before_year y =
     (y - 1) * 365 + (y - 1) div 4 - (y - 1) div 100 + (y - 1) div 400"

definition days_before_month :: "int \<Rightarrow> int \<Rightarrow> int" where
  "days_before_month y m =
     (if m = 1 then 0 else if m = 2 then 31 else if m = 3 then 59
      else if m = 4 then 90 else if m = 5 then 120 else if m = 6 then 151
      else if m = 7 then 181 else if m = 8 then 212 else if m = 9 then 243
      else if m = 10 then 273 else if m = 11 then 304 else 334)
     + (if m > 2 \<and> is_leap y then 1 else 0)"

definition ymd2ord :: "int \<Rightarrow> int \<Rightarrow> int \<Rightarrow> int" where
  "ymd2ord y m d = days_before_year y + days_before_month y m + d"

definition isoweek1monday :: "int \<Rightarrow> int" where
  "isoweek1monday y =
     (let firstday = ymd2ord y 1 1;
          firstweekday = (firstday + 6) mod 7;
          week1monday = firstday - firstweekday
      in if firstweekday > 3 then week1monday + 7 else week1monday)"

text \<open>The pair (ISO year, ISO week) of a date.\<close>

definition isocalendar :: "date \<Rightarrow> int \<times> int" where
  "isocalendar dt =
     (let y = dt_year dt;
          today = ymd2ord y (dt_month dt) (dt_day dt);
          wk = (today - isoweek1monday y) div 7
      in if wk < 0 then (y - 1, (today - isoweek1monday (y - 1)) div 7 + 1)
         else if wk \<ge> 52 \<and> today \<ge> isoweek1monday (y + 1) then (y + 1, 1)
         else (y, wk + 1))"

definition iso_year :: "date \<Rightarrow> int" where
  "iso_year dt = fst (isocalendar dt)"

definition iso_week :: "date \<Rightarrow> int" where
  "iso_week dt = snd (isocalendar dt)"


section \<open>Tables\<close>

text \<open>
  A cell of one of the eight nominally categorical columns as \<open>read_csv\<close> types it: a
  value of an \<open>int64\<close> column, a value of a \<open>float64\<close> column, or the missing value of a
  \<open>float64\<close> column. Floating-point numbers are idealised as reals; rounding is not
  modelled. A column holds cells of one dtype, so two cells of a column are the same
  value exactly when they are equal here.
\<close>

datatype cell = IntV int | FloatV real | NaN

text \<open>
  The failures of the stages, under the names of the error taxonomy of the design. The
  source raises \<open>ValueError\<close> with a message for the first (line 53, with the expected
  and the found header) and the third (line 63, with the least and the greatest date);
  the second and the fourth are raised inside pandas (\<open>to_datetime\<close>, \<open>astype(int)\<close>),
  the last by \<open>x.iloc[0]\<close> on an empty group.
\<close>

datatype error =
    SchemaError "string list" "string list"
  | ParseError
  | RangeError "date option" "date option"
  | ValidationError
  | IndexError

definition bind :: "error + 'a \<Rightarrow> ('a \<Rightarrow> error + 'b) \<Rightarrow> error + 'b" where
  "bind m f = (case m of Inl e \<Rightarrow> Inl e | Inr x \<Rightarrow> f x)"

fun traverse :: "('a \<Rightarrow> error + 'b) \<Rightarrow> 'a list \<Rightarrow> error + 'b list" where
  "traverse f [] = Inr []"
| "traverse f (x # xs) = bind (f x) (\<lambda>y. bind (traverse f xs) (\<lambda>ys. Inr (y # ys)))"

text \<open>
  A column with missing values is a list of options: \<open>None\<close> is the missing value
  (\<open>NaN\<close>, \<open>NaT\<close>). \<open>dropna\<close> keeps the values that are present.
\<close>

fun dropna :: "'a option list \<Rightarrow> 'a list" where
  "dropna [] = []"
| "dropna (None # xs) = dropna xs"
| "dropna (Some x # xs) = x # dropna xs"

text \<open>
  The columns \<open>casual\<close>, \<open>registered\<close> and \<open>cnt\<close> are \<open>int64\<close>. A value of
  such a column is an integer from \<open>-2^63\<close> to \<open>2^63 - 1\<close>; arithmetic on the column
  wraps around, and \<open>Series.sum()\<close> is the sum of the values, wrapped.
\<close>

definition wrap_int64 :: "int \<Rightarrow> int" where
  "wrap_int64 n = (n + 2 ^ 63) mod 2 ^ 64 - 2 ^ 63"

definition series_sum :: "int list \<Rightarrow> int" where
  "series_sum xs = wrap_int64 (sum_list xs)"

text \<open>
  One row of the hourly table, with the 17 columns of \<open>expected_columns\<close>. The
  type of the date column is \<^typ>\<open>'d\<close> (the cell of the file before
  \<open>pd.to_datetime\<close>: a text, or nothing where the cell is empty; after it a date, or
  \<open>NaT\<close> where the cell is empty), the type of the categorical columns is
  \<^typ>\<open>'c\<close> (a \<^typ>\<open>cell\<close> before \<open>astype(int)\<close>, an \<^typ>\<open>int\<close> after).
  The identifier and the three counts are \<open>int64\<close> values; the four climate readings
  are floats, idealised as reals.
\<close>

record ('d, 'c) row =
  instant :: int
  dteday :: 'd
  season :: 'c
  yr :: 'c
  mnth :: 'c
  hr :: 'c
  holiday :: 'c
  weekday :: 'c
  workingday :: 'c
  weathersit :: 'c
  temp :: real
  atemp :: real
  hum :: real
  windspeed :: real
  casual :: int
  registered :: int
  cnt :: int

record ('d, 'c) cleaned_row = "('d, 'c) row" +
  temp_celsius :: real
  atemp_celsius :: real
  humidity_pct :: real
  windspeed_kmh :: real

record ('d, 'c) enriched_row = "('d, 'c) cleaned_row" +
  is_peak_hour :: bool
  is_weekend :: bool
  season_name :: "string option"
  weather_desc :: "string option"
  day_name :: "string option"
  month_name :: "string option"

record ('d, 'c) final_row = "('d, 'c) enriched_row" +
  year :: "int option"
  week :: "int option"

record daily_agg =
  date :: date
  total_rentals :: int
  casual_users :: int
  registered_users :: int
  avg_temp_celsius :: "real option"
  avg_humidity_pct :: "real option"
  avg_windspeed_kmh :: "real option"
  most_common_weather :: int
  peak_hours_count :: int
  is_weekend :: bool

record weekly_agg =
  year :: int
  week :: int
  total_rentals :: int
  casual_users :: int
  registered_users :: int
  avg_temp_celsius :: "real option"
  avg_humidity_pct :: "real option"
  avg_windspeed_kmh :: "real option"
  week_start :: "date option"
  week_end :: "date option"


section \<open>Stage 1: extract and validate\<close>

definition expected_columns :: "string list" where
  "expected_columns =
     [''instant'', ''dteday'', ''season'', ''yr'', ''mnth'', ''hr'',
      ''holiday'', ''weekday'', ''workingday'', ''weathersit'',
      ''temp'', ''atemp'', ''hum'', ''windspeed'',
      ''casual'', ''registered'', ''cnt'']"

text \<open>
  \<open>Series.min()\<close> and \<open>Series.max()\<close> of a date column: the least and the greatest
  of the dates that are present, and \<open>NaT\<close> on a column with no date.
\<close>

definition series_min :: "date option list \<Rightarrow> date option" where
  "series_min ds = (case dropna ds of [] \<Rightarrow> None | d # ds' \<Rightarrow> Some (fold min ds' d))"

definition series_max :: "date option list \<Rightarrow> date option" where
  "series_max ds = (case dropna ds of [] \<Rightarrow> None | d # ds' \<Rightarrow> Some (fold max ds' d))"

text \<open>
  \<open>min_date.year >= 2011\<close> and \<open>max_date.year <= 2012\<close>: the year of \<open>NaT\<close> is
  not a number, and every comparison with it is false.
\<close>

definition year_ge :: "date option \<Rightarrow> int \<Rightarrow> bool" where
  "year_ge d y = (case d of None \<Rightarrow> False | Some dt \<Rightarrow> dt_year dt \<ge> y)"

definition year_le :: "date option \<Rightarrow> int \<Rightarrow> bool" where
  "year_le d y = (case d of None \<Rightarrow> False | Some dt \<Rightarrow> dt_year dt \<le> y)"

text \<open>
  \<open>pd.to_datetime\<close> on one cell of the date column: an empty cell becomes \<open>NaT\<close>
  and nothing is raised; a text becomes its date, or the call raises. The parser of a
  text is library code and a parameter of the model: \<open>None\<close> is a text it rejects.
\<close>

definition to_datetime_cell ::
  "(string \<Rightarrow> date option) \<Rightarrow> string option \<Rightarrow> error + date option"
where
  "to_datetime_cell to_datetime c =
     (case c of
        None \<Rightarrow> Inr None
      | Some s \<Rightarrow> (case to_datetime s of None \<Rightarrow> Inl ParseError | Some d \<Rightarrow> Inr (Some d)))"

text \<open>\<open>df['dteday'] = pd.to_datetime(df['dteday'])\<close> on one row.\<close>

definition parse_dteday ::
  "(string \<Rightarrow> date option) \<Rightarrow> (string option, 'c, 'a) row_scheme
     \<Rightarrow> error + (date option, 'c, 'a) row_scheme"
where
  "parse_dteday to_datetime r =
     bind (to_datetime_cell to_datetime (dteday r)) (\<lambda>d.
       Inr \<lparr>instant = instant r, dteday = d, season = season r, yr = yr r,
            mnth = mnth r, hr = hr r, holiday = holiday r, weekday = weekday r,
            workingday = workingday r, weathersit = weathersit r, temp = temp r,
            atemp = atemp r, hum = hum r, windspeed = windspeed r,
            casual = casual r, registered = registered r, cnt = cnt r,
            \<dots> = row.more r\<rparr>)"

text \<open>
  The check of the date range on the parsed column, lines 59 to 63 of the source.
\<close>

definition check_date_range :: "date option list \<Rightarrow> error + unit" where
  "check_date_range ds =
     (let min_date = series_min ds;
          max_date = series_max ds
      in if \<not> (year_ge min_date 2011 \<and> year_le max_date 2012)
         then Inl (RangeError min_date max_date)
         else Inr ())"

text \<open>
  \<open>extract_and_validate\<close>: the header of the file and its rows come from
  \<open>pd.read_csv\<close>; the result is the table pushed as \<open>validated_data\<close>.
\<close>

definition extract_and_validate ::
  "(string \<Rightarrow> date option) \<Rightarrow> string list \<Rightarrow> (string option, 'c, 'a) row_scheme list
     \<Rightarrow> error + (date option, 'c, 'a) row_scheme list"
where
  "extract_and_validate to_datetime columns rows =
     (if columns \<noteq> expected_columns then Inl (SchemaError expected_columns columns)
      else bind (traverse (parse_dteday to_datetime) rows) (\<lambda>df.
           bind (check_date_range (map dteday df)) (\<lambda>_. Inr df)))"

section \<open>Stage 2: clean and denormalize\<close>

text \<open>
  \<open>drop_duplicates(subset, keep='first')\<close>: a row is dropped when the value of the
  subset columns has been seen in an earlier row.
\<close>

fun drop_seen :: "('a \<Rightarrow> 'k) \<Rightarrow> 'k list \<Rightarrow> 'a list \<Rightarrow> 'a list" where
  "drop_seen key seen [] = []"
| "drop_seen key seen (x # xs) =
     (if key x \<in> set seen then drop_seen key seen xs
      else x # drop_seen key (key x # seen) xs)"

definition drop_duplicates :: "('a \<Rightarrow> 'k) \<Rightarrow> 'a list \<Rightarrow> 'a list" where
  "drop_duplicates key df = drop_seen key [] df"

text \<open>
  \<open>astype(int)\<close> on a cell: the identity on an \<open>int64\<close> column and an error on a
  missing value. On a \<open>float64\<close> column it is truncation towards zero where the
  result is an \<open>int64\<close> value; the cast of a float beyond that range gives the least
  \<open>int64\<close> value, \<open>-2^63\<close>.
\<close>

definition astype_int :: "cell \<Rightarrow> error + int" where
  "astype_int c =
     (case c of
        IntV n \<Rightarrow> Inr n
      | FloatV x \<Rightarrow>
          Inr (let t = (if x \<ge> 0 then \<lfloor>x\<rfloor> else \<lceil>x\<rceil>)
               in if - (2 ^ 63) \<le> t \<and> t < 2 ^ 63 then t else - (2 ^ 63))
      | NaN \<Rightarrow> Inl ValidationError)"

text \<open>The eight coercions of lines 117 to 124, on one row.\<close>

definition astype_row ::
  "('c \<Rightarrow> error + int) \<Rightarrow> ('d, 'c, 'a) row_scheme \<Rightarrow> error + ('d, int, 'a) row_scheme"
where
  "astype_row astype r =
     bind (astype (season r)) (\<lambda>season'.
     bind (astype (yr r)) (\<lambda>yr'.
     bind (astype (mnth r)) (\<lambda>mnth'.
     bind (astype (hr r)) (\<lambda>hr'.
     bind (astype (holiday r)) (\<lambda>holiday'.
     bind (astype (weekday r)) (\<lambda>weekday'.
     bind (astype (workingday r)) (\<lambda>workingday'.
     bind (astype (weathersit r)) (\<lambda>weathersit'.
       Inr \<lparr>instant = instant r, dteday = dteday r, season = season', yr = yr',
            mnth = mnth', hr = hr', holiday = holiday', weekday = weekday',
            workingday = workingday', weathersit = weathersit', temp = temp r,
            atemp = atemp r, hum = hum r, windspeed = windspeed r,
            casual = casual r, registered = registered r, cnt = cnt r,
            \<dots> = row.more r\<rparr>))))))))"

text \<open>
  The four assignments of lines 132 to 144. Assigning a column that the table does not
  have appends it; assigning one that it has overwrites it.
\<close>

definition append_climate :: "('d, 'c) row \<Rightarrow> ('d, 'c) cleaned_row" where
  "append_climate r =
     row.extend r
       (cleaned_row.fields (temp r * 41) (atemp r * 50) (hum r * 100) (windspeed r * 67))"

definition overwrite_climate ::
  "('d, 'c, 'a) cleaned_row_scheme \<Rightarrow> ('d, 'c, 'a) cleaned_row_scheme"
where
  "overwrite_climate r =
     r\<lparr>temp_celsius := temp r * 41, atemp_celsius := atemp r * 50,
       humidity_pct := hum r * 100, windspeed_kmh := windspeed r * 67\<rparr>"

text \<open>
  The body of \<open>transform_clean_and_denormalize\<close>, for a table whose categorical
  columns are coerced by \<open>astype\<close> and whose climate columns are assigned by \<open>assign\<close>.
  It returns the table pushed as \<open>cleaned_data\<close> and \<open>duplicates_removed\<close>.
\<close>

definition clean_and_denormalize ::
  "('c \<Rightarrow> error + int) \<Rightarrow> (('d, int, 'a) row_scheme \<Rightarrow> 'r) \<Rightarrow> ('d, 'c, 'a) row_scheme list
     \<Rightarrow> error + ('r list \<times> nat)"
where
  "clean_and_denormalize astype assign df =
     (let initial_count = length df;
          df1 = drop_duplicates (\<lambda>r. (dteday r, hr r)) df;
          duplicates_removed = initial_count - length df1
      in bind (traverse (astype_row astype) df1) (\<lambda>df2.
           Inr (map assign df2, duplicates_removed)))"

text \<open>The stage on the validated table: 17 columns, the categorical ones as read.\<close>

definition transform_clean_and_denormalize ::
  "('d, cell) row list \<Rightarrow> error + (('d, int) cleaned_row list \<times> nat)"
where
  "transform_clean_and_denormalize df = clean_and_denormalize astype_int append_climate df"

text \<open>
  The stage on a table that it has produced: the categorical columns are \<open>int64\<close>, on
  which \<open>astype(int)\<close> is the identity, and the four climate columns exist.
\<close>

definition transform_clean_and_denormalize_cleaned ::
  "('d, int, 'a) cleaned_row_scheme list \<Rightarrow> error + (('d, int, 'a) cleaned_row_scheme list \<times> nat)"
where
  "transform_clean_and_denormalize_cleaned df = clean_and_denormalize Inr overwrite_climate df"


section \<open>Stage 3: feature engineering\<close>

definition season_map :: "(int \<times> string) list" where
  "season_map = [(1, ''Spring''), (2, ''Summer''), (3, ''Fall''), (4, ''Winter'')]"

definition weather_map :: "(int \<times> string) list" where
  "weather_map =
     [(1, ''Clear/Partly Cloudy''), (2, ''Mist/Cloudy''),
      (3, ''Light Rain/Snow''), (4, ''Heavy Rain/Snow'')]"

definition day_map :: "(int \<times> string) list" where
  "day_map =
     [(0, ''Sunday''), (1, ''Monday''), (2, ''Tuesday''), (3, ''Wednesday''),
      (4, ''Thursday''), (5, ''Friday''), (6, ''Saturday'')]"

definition month_map :: "(int \<times> string) list" where
  "month_map =
     [(1, ''January''), (2, ''February''), (3, ''March''), (4, ''April''),
      (5, ''May''), (6, ''June''), (7, ''July''), (8, ''August''),
      (9, ''September''), (10, ''October''), (11, ''November''), (12, ''December'')]"

text \<open>
  The six assignments on one row. \<open>Series.map(dict)\<close> gives the missing value
  (\<open>None\<close> here) for a code that is not a key of the dictionary.
\<close>

definition add_features :: "('d, int) cleaned_row \<Rightarrow> ('d, int) enriched_row" where
  "add_features r =
     cleaned_row.extend r
       (enriched_row.fields
          ((7 \<le> hr r \<and> hr r \<le> 9) \<or> (17 \<le> hr r \<and> hr r \<le> 19))
          (weekday r \<in> set [0, 6])
          (map_of season_map (season r))
          (map_of weather_map (weathersit r))
          (map_of day_map (weekday r))
          (map_of month_map (mnth r)))"

text \<open>
  \<open>transform_feature_engineering\<close>: the table pushed as \<open>featured_data\<close>. No operation
  of the stage raises on a typed table, so the stage is a total function.
\<close>

definition transform_feature_engineering ::
  "('d, int) cleaned_row list \<Rightarrow> ('d, int) enriched_row list"
where
  "transform_feature_engineering df = map add_features df"

section \<open>Stage 4: aggregations\<close>

text \<open>
  \<open>df.groupby(key)\<close>: one group for each value of the key that is present, the groups
  in ascending order of the key, the rows of a group in their order in the table. A row
  whose key is missing is in no group (\<open>dropna=True\<close>, the default).
\<close>

definition groupby ::
  "('a \<Rightarrow> 'k::linorder option) \<Rightarrow> 'a list \<Rightarrow> ('k \<times> 'a list) list"
where
  "groupby key df =
     map (\<lambda>k. (k, filter (\<lambda>r. key r = Some k) df)) (sort (remdups (dropna (map key df))))"

text \<open>The mean of a column of floats; \<open>None\<close> is the not-a-number of an empty column.\<close>

definition mean :: "real list \<Rightarrow> real option" where
  "mean xs = (if xs = [] then None else Some (sum_list xs / real (length xs)))"

text \<open>
  \<open>Series.mode()\<close>: the values of the highest frequency, in ascending order.
\<close>

definition mode :: "int list \<Rightarrow> int list" where
  "mode xs =
     (let top = fold max (map (count_list xs) xs) 0
      in sort (remdups (filter (\<lambda>v. count_list xs v = top) xs)))"

text \<open>
  The reduction of \<open>weathersit\<close>:
  \<open>lambda x: x.mode()[0] if not x.mode().empty else x.iloc[0]\<close>.
\<close>

definition weathersit_agg :: "int list \<Rightarrow> error + int" where
  "weathersit_agg x =
     (case mode x of
        m # _ \<Rightarrow> Inr m
      | [] \<Rightarrow> (case x of v # _ \<Rightarrow> Inr v | [] \<Rightarrow> Inl IndexError))"

text \<open>
  The row of the daily table for one group. The three sums are sums of \<open>int64\<close>
  columns.
\<close>

definition daily_row ::
  "date \<times> (date option, int) enriched_row list \<Rightarrow> error + daily_agg"
where
  "daily_row kg =
     (let g = snd kg in
      bind (weathersit_agg (map weathersit g)) (\<lambda>w.
        Inr \<lparr>date = fst kg,
             total_rentals = series_sum (map cnt g),
             casual_users = series_sum (map casual g),
             registered_users = series_sum (map registered g),
             avg_temp_celsius = mean (map temp_celsius g),
             avg_humidity_pct = mean (map humidity_pct g),
             avg_windspeed_kmh = mean (map windspeed_kmh g),
             most_common_weather = w,
             peak_hours_count = int (length (filter is_peak_hour g)),
             is_weekend = list_ex enriched_row.is_weekend g\<rparr>))"

text \<open>
  The two columns added before the weekly grouping: \<open>df['dteday'].dt.year\<close> and
  \<open>df['dteday'].dt.isocalendar().week\<close>. Both are missing in a row without a date.
\<close>

definition add_year_week ::
  "(date option, int) enriched_row \<Rightarrow> (date option, int) final_row"
where
  "add_year_week r =
     enriched_row.extend r
       (final_row.fields (map_option dt_year (dteday r)) (map_option iso_week (dteday r)))"

text \<open>
  The key of \<open>groupby(['year', 'week'])\<close>: the pair of the two columns, missing where
  one of them is.
\<close>

definition year_week :: "('d, 'c, 'a) final_row_scheme \<Rightarrow> (int \<times> int) option" where
  "year_week r =
     (case final_row.year r of
        None \<Rightarrow> None
      | Some y \<Rightarrow> (case final_row.week r of None \<Rightarrow> None | Some w \<Rightarrow> Some (y, w)))"

text \<open>The row of the weekly table for one group, with the same three sums.\<close>

definition weekly_row ::
  "(int \<times> int) \<times> (date option, int) final_row list \<Rightarrow> weekly_agg"
where
  "weekly_row kg =
     (let g = snd kg in
      \<lparr>year = fst (fst kg),
       week = snd (fst kg),
       total_rentals = series_sum (map cnt g),
       casual_users = series_sum (map casual g),
       registered_users = series_sum (map registered g),
       avg_temp_celsius = mean (map temp_celsius g),
       avg_humidity_pct = mean (map humidity_pct g),
       avg_windspeed_kmh = mean (map windspeed_kmh g),
       week_start = series_min (map dteday g),
       week_end = series_max (map dteday g)\<rparr>)"

text \<open>
  \<open>transform_aggregations\<close>: the three tables pushed as \<open>final_data\<close>, \<open>daily_agg\<close>
  and \<open>weekly_agg\<close>.
\<close>

definition transform_aggregations ::
  "(date option, int) enriched_row list
     \<Rightarrow> error + ((date option, int) final_row list \<times> daily_agg list \<times> weekly_agg list)"
where
  "transform_aggregations df =
     bind (traverse daily_row (groupby dteday df)) (\<lambda>daily.
       let df' = map add_year_week df;
           weekly = map weekly_row (groupby year_week df')
       in Inr (df', daily, weekly))"


section \<open>Vocabulary of the properties\<close>

text \<open>A cell of an \<open>int64\<close> column.\<close>

definition is_int :: "cell \<Rightarrow> bool" where
  "is_int c = (case c of IntV _ \<Rightarrow> True | _ \<Rightarrow> False)"

text \<open>A row whose eight categorical cells are integers.\<close>

definition int_valued :: "('d, cell, 'a) row_scheme \<Rightarrow> bool" where
  "int_valued r =
     list_all is_int
       [season r, yr r, mnth r, hr r, holiday r, weekday r, workingday r, weathersit r]"

text \<open>
  The 17 original columns of a row of the cleaned table, its integer codes written as
  cells of an \<open>int64\<close> column: the row to compare with a row of the validated table.
\<close>

definition as_read :: "('d, int, 'a) row_scheme \<Rightarrow> ('d, cell) row" where
  "as_read r =
     \<lparr>instant = instant r, dteday = dteday r, season = IntV (season r), yr = IntV (yr r),
      mnth = IntV (mnth r), hr = IntV (hr r), holiday = IntV (holiday r),
      weekday = IntV (weekday r), workingday = IntV (workingday r),
      weathersit = IntV (weathersit r), temp = temp r, atemp = atemp r, hum = hum r,
      windspeed = windspeed r, casual = casual r, registered = registered r, cnt = cnt r\<rparr>"

text \<open>The values of highest frequency in a list: the codes that tie for the mode.\<close>

definition modes :: "int list \<Rightarrow> int set" where
  "modes xs = {v \<in> set xs. \<forall>u \<in> set xs. count_list xs u \<le> count_list xs v}"

section \<open>Example tables\<close>

text \<open>
  A reading of the first hour of 1 January 2011, a Saturday, with a temperature reading
  of one half.
\<close>

definition hour0 :: "(date option, cell) row" where
  "hour0 =
     \<lparr>instant = 1, dteday = Some (2011, 1, 1), season = IntV 1, yr = IntV 0, mnth = IntV 1,
      hr = IntV 0, holiday = IntV 0, weekday = IntV 6, workingday = IntV 0,
      weathersit = IntV 1, temp = 0.5, atemp = 0.2879, hum = 0.81, windspeed = 0,
      casual = 3, registered = 13, cnt = 16\<rparr>"

text \<open>Three readings of one day; the third repeats the date and hour of the first.\<close>

definition three_readings :: "(date option, cell) row list" where
  "three_readings =
     [hour0,
      hour0\<lparr>instant := 2, hr := IntV 1, casual := 8, registered := 32, cnt := 40\<rparr>,
      hour0\<lparr>instant := 3, casual := 5, registered := 27, cnt := 32\<rparr>]"

definition hour0_cleaned :: "(date option, int) cleaned_row" where
  "hour0_cleaned =
     \<lparr>instant = 1, dteday = Some (2011, 1, 1), season = 1, yr = 0, mnth = 1,
      hr = 0, holiday = 0, weekday = 6, workingday = 0,
      weathersit = 1, temp = 0.5, atemp = 0.2879, hum = 0.81, windspeed = 0,
      casual = 3, registered = 13, cnt = 16,
      temp_celsius = 20.5, atemp_celsius = 14.395, humidity_pct = 81, windspeed_kmh = 0\<rparr>"

definition three_readings_cleaned :: "(date option, int) cleaned_row list" where
  "three_readings_cleaned =
     [hour0_cleaned,
      hour0_cleaned\<lparr>instant := 2, hr := 1, casual := 8, registered := 32, cnt := 40\<rparr>]"

text \<open>
  Two readings of one day in a file that writes the hour with a fraction: 3.2 and 3.7.
\<close>

definition fractional_hours :: "(date option, cell) row list" where
  "fractional_hours =
     [hour0\<lparr>hr := FloatV 3.2\<rparr>, hour0\<lparr>instant := 2, hr := FloatV 3.7\<rparr>]"

definition fractional_hours_cleaned :: "(date option, int) cleaned_row list" where
  "fractional_hours_cleaned =
     [hour0_cleaned\<lparr>hr := 3\<rparr>, hour0_cleaned\<lparr>instant := 2, hr := 3\<rparr>]"

text \<open>A cleaned row whose season code, 5, is not a key of \<open>season_map\<close>.\<close>

definition unmapped_season :: "(date option, int) cleaned_row list" where
  "unmapped_season = [hour0_cleaned\<lparr>season := 5\<rparr>]"

text \<open>
  A reading of the last hour of 31 December 2012, a Monday, and a reading whose date
  cell is empty.
\<close>

definition last_hour :: "(date option, cell) row" where
  "last_hour =
     \<lparr>instant = 3, dteday = Some (2012, 12, 31), season = IntV 1, yr = IntV 1, mnth = IntV 12,
      hr = IntV 23, holiday = IntV 0, weekday = IntV 1, workingday = IntV 1,
      weathersit = IntV 1, temp = 0.26, atemp = 0.2727, hum = 0.65, windspeed = 0.1343,
      casual = 12, registered = 37, cnt = 49\<rparr>"

definition undated_hour :: "(date option, cell) row" where
  "undated_hour =
     \<lparr>instant = 2, dteday = None, season = IntV 1, yr = IntV 0, mnth = IntV 1,
      hr = IntV 1, holiday = IntV 0, weekday = IntV 6, workingday = IntV 0,
      weathersit = IntV 1, temp = 0.22, atemp = 0.2727, hum = 0.8, windspeed = 0,
      casual = 8, registered = 32, cnt = 40\<rparr>"

text \<open>
  A file of three rows: the first and the last hour, and between them a row whose date
  cell is empty; and a parser of its two dates.
\<close>

definition raw_readings :: "(string option, cell) row list" where
  "raw_readings =
     [\<lparr>instant = 1, dteday = Some ''2011-01-01'', season = IntV 1, yr = IntV 0, mnth = IntV 1,
       hr = IntV 0, holiday = IntV 0, weekday = IntV 6, workingday = IntV 0,
       weathersit = IntV 1, temp = 0.5, atemp = 0.2879, hum = 0.81, windspeed = 0,
       casual = 3, registered = 13, cnt = 16\<rparr>,
      \<lparr>instant = 2, dteday = None, season = IntV 1, yr = IntV 0, mnth = IntV 1,
       hr = IntV 1, holiday = IntV 0, weekday = IntV 6, workingday = IntV 0,
       weathersit = IntV 1, temp = 0.22, atemp = 0.2727, hum = 0.8, windspeed = 0,
       casual = 8, registered = 32, cnt = 40\<rparr>,
      \<lparr>instant = 3, dteday = Some ''2012-12-31'', season = IntV 1, yr = IntV 1, mnth = IntV 12,
       hr = IntV 23, holiday = IntV 0, weekday = IntV 1, workingday = IntV 1,
       weathersit = IntV 1, temp = 0.26, atemp = 0.2727, hum = 0.65, windspeed = 0.1343,
       casual = 12, registered = 37, cnt = 49\<rparr>]"

definition two_dates :: "string \<Rightarrow> date option" where
  "two_dates = map_of [(''2011-01-01'', (2011, 1, 1)), (''2012-12-31'', (2012, 12, 31))]"

text \<open>
  Two enriched rows: a reading of 1 January 2011 with 16 rentals and a reading without
  a date with 40 rentals.
\<close>

definition missing_date :: "(date option, int) enriched_row list" where
  "missing_date =
     transform_feature_engineering
       [hour0_cleaned,
        hour0_cleaned\<lparr>instant := 2, dteday := None, hr := 1,
                      casual := 8, registered := 32, cnt := 40\<rparr>]"

text \<open>
  Two enriched rows of one day whose counts are the greatest \<open>int64\<close> value: all
  casual in the first, all registered in the second.
\<close>

definition overflow_day :: "(date option, int) enriched_row list" where
  "overflow_day =
     transform_feature_engineering
       [hour0_cleaned\<lparr>casual := 9223372036854775807, registered := 0,
                      cnt := 9223372036854775807\<rparr>,
        hour0_cleaned\<lparr>instant := 2, hr := 1, casual := 0,
                      registered := 9223372036854775807, cnt := 9223372036854775807\<rparr>]"

text \<open>
  Two Sundays of 2012 as enriched rows: the first day of the year, which ISO-8601 puts
  in week 52 of 2011, and 30 December, in week 52 of 2012.
\<close>

definition year_end_days :: "(date option, int) enriched_row list" where
  "year_end_days =
     transform_feature_engineering
       [hour0_cleaned\<lparr>dteday := Some (2012, 1, 1), weekday := 0\<rparr>,
        hour0_cleaned\<lparr>instant := 2, dteday := Some (2012, 12, 30), mnth := 12,
                      weekday := 0\<rparr>]"

text \<open>
  Five readings of one day as enriched rows; the weather codes 2, 1, 2, 1, 3 tie
  between 1 and 2.
\<close>

definition tied_weather :: "(date option, int) enriched_row list" where
  "tied_weather =
     transform_feature_engineering
       [hour0_cleaned\<lparr>weathersit := 2\<rparr>,
        hour0_cleaned\<lparr>instant := 2, hr := 1, weathersit := 1\<rparr>,
        hour0_cleaned\<lparr>instant := 3, hr := 2, weathersit := 2\<rparr>,
        hour0_cleaned\<lparr>instant := 4, hr := 3, weathersit := 1\<rparr>,
        hour0_cleaned\<lparr>instant := 5, hr := 4, weathersit := 3\<rparr>]"

section \<open>Properties of the helpers\<close>

lemma bind_Inr_iff: "bind m f = Inr y \<longleftrightarrow> (\<exists>x. m = Inr x \<and> f x = Inr y)"
  by (cases m) (simp_all add: bind_def)

lemma bind_Inr [simp]: "bind (Inr x) f = f x"
  by (simp add: bind_def)

lemma bind_Inl [simp]: "bind (Inl e) f = Inl e"
  by (simp add: bind_def)

lemma traverse_Inr_iff:
  "traverse f xs = Inr ys \<longleftrightarrow> list_all2 (\<lambda>x y. f x = Inr y) xs ys"
proof (induction xs arbitrary: ys)
  case Nil
  then show ?case by auto
next
  case (Cons x xs)
  show ?case
    by (cases ys) (auto simp: bind_Inr_iff Cons.IH)
qed

lemma traverse_map: "(\<And>x. x \<in> set xs \<Longrightarrow> f x = Inr (g x)) \<Longrightarrow> traverse f xs = Inr (map g xs)"
  by (induction xs) simp_all

lemma traverse_total:
  "(\<And>x. x \<in> set xs \<Longrightarrow> \<exists>y. f x = Inr y) \<Longrightarrow> \<exists>ys. traverse f xs = Inr ys"
proof (induction xs)
  case Nil
  then show ?case by simp
next
  case (Cons x xs)
  then obtain y ys where "f x = Inr y" "traverse f xs = Inr ys"
    by (meson list.set_intros)
  then show ?case by simp
qed

lemma list_all2_map_eq:
  "list_all2 (\<lambda>x y. g y = f x) xs ys \<Longrightarrow> map g ys = map f xs"
  by (auto simp: list_all2_conv_all_nth intro!: nth_equalityI)

lemma list_all2_obtain_left:
  "list_all2 R xs ys \<Longrightarrow> y \<in> set ys \<Longrightarrow> \<exists>x \<in> set xs. R x y"
  by (induction rule: list_all2_induct) auto

lemma distinct_map_list_all2:
  assumes "list_all2 R xs ys" "distinct (map f xs)"
    and "\<And>x x' y y'. x \<in> set xs \<Longrightarrow> x' \<in> set xs \<Longrightarrow> R x y \<Longrightarrow> R x' y' \<Longrightarrow> g y = g y' \<Longrightarrow> f x = f x'"
  shows "distinct (map g ys)"
  using assms
proof (induction rule: list_all2_induct)
  case Nil
  then show ?case by simp
next
  case (Cons x xs y ys)
  have "g y \<notin> g ` set ys"
  proof
    assume "g y \<in> g ` set ys"
    then obtain y' where y': "y' \<in> set ys" "g y = g y'" by auto
    with Cons.hyps(2) obtain x' where x': "x' \<in> set xs" "R x' y'"
      by (metis in_set_conv_nth list_all2_conv_all_nth)
    with Cons.prems(2)[of x x' y y'] y' Cons.hyps(1) have "f x = f x'" by simp
    with x' Cons.prems(1) show False by auto
  qed
  moreover have "distinct (map g ys)"
    using Cons by (auto intro: Cons.IH)
  ultimately show ?case by simp
qed

lemma subseq_drop_seen: "subseq (drop_seen key seen xs) xs"
  by (induction xs arbitrary: seen) auto

lemma set_drop_seen: "set (drop_seen key seen xs) \<subseteq> set xs"
  by (induction xs arbitrary: seen) auto

lemma keys_drop_seen: "key ` set (drop_seen key seen xs) = key ` set xs - set seen"
  by (induction xs arbitrary: seen) auto

lemma distinct_drop_seen: "distinct (map key (drop_seen key seen xs))"
  by (induction xs arbitrary: seen) (auto simp: keys_drop_seen)

lemma drop_seen_id:
  "distinct (map key xs) \<Longrightarrow> key ` set xs \<inter> set seen = {} \<Longrightarrow> drop_seen key seen xs = xs"
  by (induction xs arbitrary: seen) auto

lemma drop_seen_nth:
  "drop_seen key seen xs =
     map ((!) xs) (filter (\<lambda>i. key (xs ! i) \<notin> set seen \<union> key ` set (take i xs)) [0..<length xs])"
proof (induction xs arbitrary: seen)
  case Nil
  then show ?case by simp
next
  case (Cons x xs)
  have up: "[0..<length (x # xs)] = 0 # map Suc [0..<length xs]"
    by (simp add: upt_conv_Cons map_Suc_upt del: upt_Suc)
  define P where "P = (\<lambda>i. key ((x # xs) ! i) \<notin> set seen \<union> key ` set (take i (x # xs)))"
  have P0: "P 0 \<longleftrightarrow> key x \<notin> set seen"
    by (simp add: P_def)
  have rhs: "map ((!) (x # xs)) (filter P [0..<length (x # xs)]) =
             (if P 0 then [x] else []) @ map ((!) xs) (filter (\<lambda>i. P (Suc i)) [0..<length xs])"
    unfolding up by (simp add: filter_map comp_def)
  show ?case
  proof (cases "key x \<in> set seen")
    case True
    have "filter (\<lambda>i. P (Suc i)) [0..<length xs] =
          filter (\<lambda>i. key (xs ! i) \<notin> set seen \<union> key ` set (take i xs)) [0..<length xs]"
      using True by (intro filter_cong) (auto simp: P_def)
    with True P0 rhs show ?thesis
      by (simp add: Cons.IH P_def)
  next
    case False
    have "filter (\<lambda>i. P (Suc i)) [0..<length xs] =
          filter (\<lambda>i. key (xs ! i) \<notin> set (key x # seen) \<union> key ` set (take i xs)) [0..<length xs]"
      by (intro filter_cong) (auto simp: P_def)
    with False P0 rhs show ?thesis
      by (simp add: Cons.IH P_def)
  qed
qed

lemma astype_row_Inr:
  assumes "astype_row astype r = Inr r'"
  shows "instant r' = instant r \<and> dteday r' = dteday r \<and> temp r' = temp r \<and> atemp r' = atemp r
       \<and> hum r' = hum r \<and> windspeed r' = windspeed r \<and> casual r' = casual r
       \<and> registered r' = registered r \<and> cnt r' = cnt r \<and> row.more r' = row.more r
       \<and> astype (season r) = Inr (season r') \<and> astype (yr r) = Inr (yr r')
       \<and> astype (mnth r) = Inr (mnth r') \<and> astype (hr r) = Inr (hr r')
       \<and> astype (holiday r) = Inr (holiday r') \<and> astype (weekday r) = Inr (weekday r')
       \<and> astype (workingday r) = Inr (workingday r') \<and> astype (weathersit r) = Inr (weathersit r')"
  using assms unfolding astype_row_def bind_Inr_iff by auto

lemma astype_row_id: "astype_row Inr r = Inr r"
  by (simp add: astype_row_def)

lemma clean_and_denormalize_Inr:
  "clean_and_denormalize astype assign df = Inr (out, n) \<longleftrightarrow>
     (\<exists>df2. list_all2 (\<lambda>r r'. astype_row astype r = Inr r')
               (drop_duplicates (\<lambda>r. (dteday r, hr r)) df) df2
           \<and> out = map assign df2
           \<and> n = length df - length (drop_duplicates (\<lambda>r. (dteday r, hr r)) df))"
  by (auto simp: clean_and_denormalize_def Let_def bind_Inr_iff traverse_Inr_iff)

lemma append_climate_simps [simp]:
  "temp_celsius (append_climate r) = temp r * 41"
  "atemp_celsius (append_climate r) = atemp r * 50"
  "humidity_pct (append_climate r) = hum r * 100"
  "windspeed_kmh (append_climate r) = windspeed r * 67"
  "cleaned_row.more (append_climate r) = ()"
  "row.truncate (append_climate r) = r"
  "instant (append_climate r) = instant r"
  "dteday (append_climate r) = dteday r"
  "season (append_climate r) = season r"
  "yr (append_climate r) = yr r"
  "mnth (append_climate r) = mnth r"
  "hr (append_climate r) = hr r"
  "holiday (append_climate r) = holiday r"
  "weekday (append_climate r) = weekday r"
  "workingday (append_climate r) = workingday r"
  "weathersit (append_climate r) = weathersit r"
  "temp (append_climate r) = temp r"
  "atemp (append_climate r) = atemp r"
  "hum (append_climate r) = hum r"
  "windspeed (append_climate r) = windspeed r"
  "casual (append_climate r) = casual r"
  "registered (append_climate r) = registered r"
  "cnt (append_climate r) = cnt r"
  by (simp_all add: append_climate_def row.defs cleaned_row.defs)

lemma overwrite_append_climate: "overwrite_climate (append_climate r) = append_climate r"
  by (simp add: overwrite_climate_def append_climate_def row.defs cleaned_row.defs)

lemma astype_int_is_int: "is_int c \<Longrightarrow> astype_int c = Inr n \<longleftrightarrow> c = IntV n"
  by (cases c) (auto simp: is_int_def astype_int_def)

lemma astype_int_beyond_int64:
  "astype_int (FloatV (10 ^ 30)) = Inr (- (2 ^ 63))"
  "astype_int (FloatV (2 * 10 ^ 30)) = Inr (- (2 ^ 63))"
proof -
  have f: "\<lfloor>10 ^ 30 :: real\<rfloor> = 10 ^ 30" "\<lfloor>2 * 10 ^ 30 :: real\<rfloor> = 2 * 10 ^ 30"
    by (simp_all add: floor_eq_iff)
  show "astype_int (FloatV (10 ^ 30)) = Inr (- (2 ^ 63))"
    "astype_int (FloatV (2 * 10 ^ 30)) = Inr (- (2 ^ 63))"
    by (simp_all add: astype_int_def Let_def f)
qed

lemma astype_row_int_valued:
  assumes "int_valued r"
  shows "\<exists>r'. astype_row astype_int r = Inr r'"
proof -
  from assms obtain a b c d e f g h where
    "season r = IntV a" "yr r = IntV b" "mnth r = IntV c" "hr r = IntV d"
    "holiday r = IntV e" "weekday r = IntV f" "workingday r = IntV g" "weathersit r = IntV h"
    unfolding int_valued_def is_int_def by (auto split: cell.splits)
  then show ?thesis by (simp add: astype_row_def astype_int_def)
qed

lemma as_read_astype_row:
  assumes "int_valued r" "astype_row astype_int r = Inr r'"
  shows "as_read r' = r"
proof -
  note f = astype_row_Inr[OF assms(2)]
  from assms(1) have i: "is_int (season r)" "is_int (yr r)" "is_int (mnth r)" "is_int (hr r)"
    "is_int (holiday r)" "is_int (weekday r)" "is_int (workingday r)" "is_int (weathersit r)"
    by (simp_all add: int_valued_def)
  have "season r = IntV (season r')" "yr r = IntV (yr r')" "mnth r = IntV (mnth r')"
    "hr r = IntV (hr r')" "holiday r = IntV (holiday r')" "weekday r = IntV (weekday r')"
    "workingday r = IntV (workingday r')" "weathersit r = IntV (weathersit r')"
    using f i by (simp_all add: astype_int_is_int)
  with f show ?thesis by (simp add: as_read_def)
qed

lemma as_read_append_climate: "as_read (append_climate r) = as_read r"
  by (simp add: as_read_def)

lemmas cleaner_eval =
  transform_clean_and_denormalize_def transform_clean_and_denormalize_cleaned_def
  clean_and_denormalize_def drop_duplicates_def astype_row_def astype_int_def Let_def
  append_climate_def overwrite_climate_def row.defs cleaned_row.defs

lemma three_readings_run:
  "transform_clean_and_denormalize three_readings = Inr (three_readings_cleaned, 1)"
  by (simp add: cleaner_eval three_readings_def three_readings_cleaned_def hour0_def hour0_cleaned_def)

lemma add_features_simps [simp]:
  "cleaned_row.truncate (add_features r) = r"
  "is_peak_hour (add_features r) \<longleftrightarrow> (7 \<le> hr r \<and> hr r \<le> 9) \<or> (17 \<le> hr r \<and> hr r \<le> 19)"
  "enriched_row.is_weekend (add_features r) \<longleftrightarrow> weekday r = 0 \<or> weekday r = 6"
  "season_name (add_features r) = map_of season_map (season r)"
  "weather_desc (add_features r) = map_of weather_map (weathersit r)"
  "day_name (add_features r) = map_of day_map (weekday r)"
  "month_name (add_features r) = map_of month_map (mnth r)"
  "dteday (add_features r) = dteday r"
  "hr (add_features r) = hr r"
  "weathersit (add_features r) = weathersit r"
  "casual (add_features r) = casual r"
  "registered (add_features r) = registered r"
  "cnt (add_features r) = cnt r"
  "temp_celsius (add_features r) = temp_celsius r"
  "humidity_pct (add_features r) = humidity_pct r"
  "windspeed_kmh (add_features r) = windspeed_kmh r"
  by (auto simp: add_features_def cleaned_row.defs enriched_row.defs)

lemma season_map_None: "map_of season_map c = None \<longleftrightarrow> \<not> (1 \<le> c \<and> c \<le> 4)"
  by (auto simp: season_map_def)

lemma weather_map_None: "map_of weather_map c = None \<longleftrightarrow> \<not> (1 \<le> c \<and> c \<le> 4)"
  by (auto simp: weather_map_def)

lemma day_map_None: "map_of day_map c = None \<longleftrightarrow> \<not> (0 \<le> c \<and> c \<le> 6)"
  by (auto simp: day_map_def)

lemma month_map_None: "map_of month_map c = None \<longleftrightarrow> \<not> (1 \<le> c \<and> c \<le> 12)"
proof -
  have "map_of month_map c = None \<longleftrightarrow> c \<notin> {1, 2, 3, 4, 5, 6, 7, 8, 9, 10, 11, 12}"
    by (simp add: month_map_def)
  also have "\<dots> \<longleftrightarrow> \<not> (1 \<le> c \<and> c \<le> 12)"
    by (simp only: insert_iff empty_iff) presburger
  finally show ?thesis .
qed

lemma dt_year_mono: "d \<le> d' \<Longrightarrow> dt_year d \<le> dt_year d'"
  by (auto simp: dt_year_def less_eq_prod_def)

lemma set_dropna: "set (dropna xs) = {x. Some x \<in> set xs}"
  by (induction xs rule: dropna.induct) auto

lemma dropna_map_Some: "(\<And>x. x \<in> set xs \<Longrightarrow> x \<noteq> None) \<Longrightarrow> map Some (dropna xs) = xs"
  by (induction xs rule: dropna.induct) auto

lemma series_min_Min: "dropna ds \<noteq> [] \<Longrightarrow> series_min ds = Some (Min (set (dropna ds)))"
  by (cases "dropna ds") (simp_all add: series_min_def Min.set_eq_fold [symmetric])

lemma series_max_Max: "dropna ds \<noteq> [] \<Longrightarrow> series_max ds = Some (Max (set (dropna ds)))"
  by (cases "dropna ds") (simp_all add: series_max_def Max.set_eq_fold [symmetric])

lemma year_ge_series_min:
  assumes "dropna ds \<noteq> []"
  shows "year_ge (series_min ds) y \<longleftrightarrow> (\<forall>d \<in> set (dropna ds). y \<le> dt_year d)"
proof -
  have "Min (set (dropna ds)) \<in> set (dropna ds)" using assms by simp
  moreover have "\<And>d. d \<in> set (dropna ds) \<Longrightarrow> dt_year (Min (set (dropna ds))) \<le> dt_year d"
    by (simp add: dt_year_mono)
  ultimately show ?thesis
    using assms by (auto simp: year_ge_def series_min_Min intro: order_trans)
qed

lemma year_le_series_max:
  assumes "dropna ds \<noteq> []"
  shows "year_le (series_max ds) y \<longleftrightarrow> (\<forall>d \<in> set (dropna ds). dt_year d \<le> y)"
proof -
  have "Max (set (dropna ds)) \<in> set (dropna ds)" using assms by simp
  moreover have "\<And>d. d \<in> set (dropna ds) \<Longrightarrow> dt_year d \<le> dt_year (Max (set (dropna ds)))"
    by (simp add: dt_year_mono)
  ultimately show ?thesis
    using assms by (auto simp: year_le_def series_max_Max intro: order_trans)
qed

lemma check_date_range_iff:
  assumes "dropna ds \<noteq> []"
  shows "check_date_range ds = Inr ()
           \<longleftrightarrow> (\<forall>d \<in> set (dropna ds). dt_year d = 2011 \<or> dt_year d = 2012)"
proof -
  have "(2011 \<le> y \<and> y \<le> 2012) \<longleftrightarrow> (y = 2011 \<or> y = 2012)" for y :: int by auto
  then show ?thesis
    using assms
    by (auto simp: check_date_range_def Let_def year_ge_series_min year_le_series_max)
qed

lemma check_date_range_cases:
  "check_date_range ds = Inr () \<or> check_date_range ds = Inl (RangeError (series_min ds) (series_max ds))"
  by (simp add: check_date_range_def Let_def)

lemma parse_dteday_Inr:
  assumes "parse_dteday to_datetime r = Inr r'"
  shows "casual r' = casual r \<and> registered r' = registered r \<and> cnt r' = cnt r"
  using assms by (auto simp: parse_dteday_def bind_Inr_iff)

lemma parse_dteday_total:
  assumes "\<And>s. dteday r = Some s \<Longrightarrow> to_datetime s \<noteq> None"
  shows "\<exists>r'. parse_dteday to_datetime r = Inr r'"
proof (cases "dteday r")
  case None
  then show ?thesis by (simp add: parse_dteday_def to_datetime_cell_def)
next
  case (Some s)
  with assms obtain d where "to_datetime s = Some d" by auto
  with Some show ?thesis by (simp add: parse_dteday_def to_datetime_cell_def)
qed

lemma to_datetime_returns:
  assumes "\<And>r s. r \<in> set rows \<Longrightarrow> dteday r = Some s \<Longrightarrow> to_datetime s \<noteq> None"
  shows "\<exists>df. traverse (parse_dteday to_datetime) rows = Inr df"
  using assms by (intro traverse_total parse_dteday_total) blast

lemma extract_and_validate_Inr:
  assumes "extract_and_validate to_datetime columns rows = Inr df"
  shows "list_all2 (\<lambda>r r'. parse_dteday to_datetime r = Inr r') rows df"
  using assms
  by (auto simp: extract_and_validate_def bind_Inr_iff traverse_Inr_iff split: if_splits)

lemma sort_remdups_dropna:
  "sort (remdups (dropna xs)) = sorted_list_of_set {k. Some k \<in> set xs}"
  by (simp only: sorted_list_of_set_sort_remdups [symmetric] set_dropna)

lemma groupby_eq:
  "groupby key df =
     map (\<lambda>k. (k, filter (\<lambda>r. key r = Some k) df))
       (sorted_list_of_set {k. Some k \<in> key ` set df})"
  by (simp add: groupby_def sort_remdups_dropna)

lemma groupby_keys: "map fst (groupby key df) = sorted_list_of_set {k. Some k \<in> key ` set df}"
  by (simp add: groupby_eq comp_def)

lemma finite_keys: "finite {k. Some k \<in> key ` set df}"
proof -
  have "{k. Some k \<in> key ` set df} = set (dropna (map key df))"
    by (simp add: set_dropna)
  then show ?thesis by (simp only: finite_set)
qed

lemma groupby_nonempty: "kg \<in> set (groupby key df) \<Longrightarrow> snd kg \<noteq> []"
  by (auto simp: groupby_eq finite_keys filter_empty_conv)

lemma groupby_group:
  "kg \<in> set (groupby key df) \<Longrightarrow> snd kg = filter (\<lambda>r. key r = Some (fst kg)) df"
  by (auto simp: groupby_eq)

lemma groupby_rows: "kg \<in> set (groupby key df) \<Longrightarrow> r \<in> set (snd kg) \<Longrightarrow> r \<in> set df"
  by (auto simp: groupby_eq)

lemma sum_list_indicator:
  "distinct ks \<Longrightarrow> a \<in> set ks \<Longrightarrow> (\<Sum>k\<leftarrow>ks. if a = k then c else 0) = (c::int)"
proof (induction ks)
  case Nil
  then show ?case by simp
next
  case (Cons k ks)
  have "a \<notin> set ks \<Longrightarrow> (\<Sum>k\<leftarrow>ks. if a = k then c else 0) = 0"
    by (induction ks) auto
  with Cons show ?case by auto
qed

lemma sum_list_partition:
  fixes f :: "'a \<Rightarrow> int"
  assumes "distinct ks" "{k. Some k \<in> key ` set df} \<subseteq> set ks"
  shows "(\<Sum>k\<leftarrow>ks. sum_list (map f (filter (\<lambda>r. key r = Some k) df)))
           = sum_list (map f (filter (\<lambda>r. key r \<noteq> None) df))"
  using assms(2)
proof (induction df)
  case Nil
  then show ?case by simp
next
  case (Cons r df)
  from Cons.prems have sub: "{k. Some k \<in> key ` set df} \<subseteq> set ks" by auto
  note IH = Cons.IH [OF sub]
  show ?case
  proof (cases "key r")
    case None
    then have "(\<Sum>k\<leftarrow>ks. sum_list (map f (filter (\<lambda>r. key r = Some k) (r # df))))
        = (\<Sum>k\<leftarrow>ks. sum_list (map f (filter (\<lambda>r. key r = Some k) df)))"
      by simp
    with None IH show ?thesis by simp
  next
    case (Some a)
    with Cons.prems have a: "a \<in> set ks" by auto
    have "(\<Sum>k\<leftarrow>ks. sum_list (map f (filter (\<lambda>r. key r = Some k) (r # df))))
        = (\<Sum>k\<leftarrow>ks. (if a = k then f r else 0)
                      + sum_list (map f (filter (\<lambda>r. key r = Some k) df)))"
      using Some by (intro arg_cong[where f = sum_list] map_cong) auto
    also have "\<dots> = (\<Sum>k\<leftarrow>ks. if a = k then f r else 0)
                  + (\<Sum>k\<leftarrow>ks. sum_list (map f (filter (\<lambda>r. key r = Some k) df)))"
      by (simp add: sum_list_addf)
    also have "\<dots> = f r + sum_list (map f (filter (\<lambda>r. key r \<noteq> None) df))"
      using a assms(1) IH by (simp add: sum_list_indicator)
    finally show ?thesis using Some by simp
  qed
qed

lemma sum_list_groupby:
  fixes f :: "'a \<Rightarrow> int"
  shows "(\<Sum>kg\<leftarrow>groupby key df. sum_list (map f (snd kg)))
           = sum_list (map f (filter (\<lambda>r. key r \<noteq> None) df))"
  by (simp add: groupby_eq comp_def sum_list_partition finite_keys)

lemma sum_list_groupby_all:
  fixes f :: "'a \<Rightarrow> int"
  assumes "\<forall>r \<in> set df. key r \<noteq> None"
  shows "(\<Sum>kg\<leftarrow>groupby key df. sum_list (map f (snd kg))) = sum_list (map f df)"
proof -
  from assms have "filter (\<lambda>r. key r \<noteq> None) df = df"
    by (simp add: filter_id_conv)
  then show ?thesis by (simp add: sum_list_groupby)
qed

lemma wrap_int64_mod: "wrap_int64 a = wrap_int64 b \<longleftrightarrow> a mod 2 ^ 64 = b mod 2 ^ 64"
proof -
  have "(a + 2 ^ 63) mod 2 ^ 64 = (b + 2 ^ 63) mod 2 ^ 64 \<longleftrightarrow> a mod 2 ^ 64 = b mod 2 ^ 64"
    (is "?l \<longleftrightarrow> ?r")
  proof
    assume ?l
    then have "(a + 2 ^ 63 - 2 ^ 63) mod 2 ^ 64 = (b + 2 ^ 63 - 2 ^ 63) mod 2 ^ 64"
      by (rule mod_diff_cong) simp
    then show ?r by simp
  next
    assume ?r
    then show ?l by (rule mod_add_cong) simp
  qed
  then show ?thesis by (simp add: wrap_int64_def)
qed

lemma wrap_int64_idem: "wrap_int64 (wrap_int64 a) = wrap_int64 a"
proof -
  have "wrap_int64 (wrap_int64 a) = (((a + 2 ^ 63) mod 2 ^ 64 - 2 ^ 63) + 2 ^ 63) mod 2 ^ 64 - 2 ^ 63"
    by (simp only: wrap_int64_def)
  also have "\<dots> = (a + 2 ^ 63) mod 2 ^ 64 - 2 ^ 63"
    by simp
  finally show ?thesis by (simp only: wrap_int64_def)
qed

lemma wrap_int64_add_left: "wrap_int64 (wrap_int64 a + b) = wrap_int64 (a + b)"
proof -
  have "wrap_int64 a mod 2 ^ 64 = a mod 2 ^ 64"
    using wrap_int64_idem[of a] by (simp only: wrap_int64_mod)
  then have "(wrap_int64 a + b) mod 2 ^ 64 = (a + b) mod 2 ^ 64"
    by (rule mod_add_cong) simp
  then show ?thesis by (simp only: wrap_int64_mod)
qed

lemma wrap_int64_add_right: "wrap_int64 (a + wrap_int64 b) = wrap_int64 (a + b)"
  using wrap_int64_add_left[of b a] by (simp add: add.commute)

lemma wrap_int64_id: "- (2 ^ 63) \<le> n \<Longrightarrow> n < 2 ^ 63 \<Longrightarrow> wrap_int64 n = n"
  by (simp add: wrap_int64_def)

lemma wrap_int64_sum_list:
  "wrap_int64 (\<Sum>x\<leftarrow>xs. wrap_int64 (f x)) = wrap_int64 (\<Sum>x\<leftarrow>xs. f x)"
proof (induction xs)
  case Nil
  then show ?case by simp
next
  case (Cons x xs)
  have "wrap_int64 (\<Sum>y\<leftarrow>x # xs. wrap_int64 (f y))
          = wrap_int64 (f x + wrap_int64 (\<Sum>y\<leftarrow>xs. wrap_int64 (f y)))"
    by (simp add: wrap_int64_add_left wrap_int64_add_right)
  also have "\<dots> = wrap_int64 (f x + wrap_int64 (\<Sum>y\<leftarrow>xs. f y))"
    by (simp only: Cons.IH)
  finally show ?case by (simp add: wrap_int64_add_right)
qed

lemma series_sum_groupby:
  assumes "\<forall>r \<in> set df. key r \<noteq> None"
  shows "series_sum (map (\<lambda>kg. series_sum (map f (snd kg))) (groupby key df))
           = series_sum (map f df)"
proof -
  have "series_sum (map (\<lambda>kg. series_sum (map f (snd kg))) (groupby key df))
          = wrap_int64 (\<Sum>kg\<leftarrow>groupby key df. wrap_int64 (sum_list (map f (snd kg))))"
    by (simp add: series_sum_def)
  also have "\<dots> = wrap_int64 (\<Sum>kg\<leftarrow>groupby key df. sum_list (map f (snd kg)))"
    by (rule wrap_int64_sum_list)
  also have "\<dots> = wrap_int64 (sum_list (map f df))"
    by (simp only: sum_list_groupby_all [OF assms])
  finally show ?thesis by (simp only: series_sum_def)
qed

lemma abs_sum_list_filter:
  fixes f :: "'a \<Rightarrow> int"
  shows "\<bar>sum_list (map f (filter P xs))\<bar> \<le> (\<Sum>x\<leftarrow>xs. \<bar>f x\<bar>)"
proof (induction xs)
  case Nil
  then show ?case by simp
next
  case (Cons x xs)
  have "0 \<le> \<bar>f x\<bar>" by simp
  with Cons show ?case by (cases "P x") (simp_all add: abs_if split: if_splits)
qed

lemma series_sum_exact:
  fixes f :: "'a \<Rightarrow> int"
  assumes "(\<Sum>x\<leftarrow>xs. \<bar>f x\<bar>) < 2 ^ 63"
  shows "series_sum (map f (filter P xs)) = sum_list (map f (filter P xs))"
proof -
  have "\<bar>sum_list (map f (filter P xs))\<bar> < 2 ^ 63"
    using abs_sum_list_filter[of f P xs] assms by (rule le_less_trans)
  then have "- (2 ^ 63) \<le> sum_list (map f (filter P xs))" "sum_list (map f (filter P xs)) < 2 ^ 63"
    by (simp_all add: abs_less_iff)
  then show ?thesis
    unfolding series_sum_def by (rule wrap_int64_id)
qed

lemma sum_list_counts:
  "(\<And>r. r \<in> set g \<Longrightarrow> casual r + registered r = cnt r) \<Longrightarrow>
   sum_list (map casual g) + sum_list (map registered g) = sum_list (map cnt g)"
proof (induction g)
  case Nil
  then show ?case by simp
next
  case (Cons r g)
  have "casual r + registered r = cnt r" using Cons.prems by simp
  moreover have "sum_list (map casual g) + sum_list (map registered g) = sum_list (map cnt g)"
    using Cons by simp
  ultimately show ?case by simp
qed

lemma group_counts_wrapped:
  assumes "\<forall>r \<in> set xs. casual r + registered r = cnt r"
  shows "wrap_int64 (series_sum (map casual (filter P xs)) + series_sum (map registered (filter P xs)))
           = series_sum (map cnt (filter P xs))"
proof -
  have "sum_list (map casual (filter P xs)) + sum_list (map registered (filter P xs))
          = sum_list (map cnt (filter P xs))"
    using assms by (intro sum_list_counts) simp
  then show ?thesis
    by (simp add: series_sum_def wrap_int64_add_left wrap_int64_add_right)
qed

lemma group_counts_exact:
  assumes inv: "\<forall>r \<in> set xs. casual r + registered r = cnt r"
    and bound: "(\<Sum>r\<leftarrow>xs. \<bar>casual r\<bar> + \<bar>registered r\<bar>) < 2 ^ 63"
  shows "series_sum (map casual (filter P xs)) + series_sum (map registered (filter P xs))
           = series_sum (map cnt (filter P xs))"
proof -
  have "(\<Sum>r\<leftarrow>xs. \<bar>casual r\<bar>) \<le> (\<Sum>r\<leftarrow>xs. \<bar>casual r\<bar> + \<bar>registered r\<bar>)"
    by (rule sum_list_mono) simp
  from this bound have a: "(\<Sum>r\<leftarrow>xs. \<bar>casual r\<bar>) < 2 ^ 63" by (rule le_less_trans)
  have "(\<Sum>r\<leftarrow>xs. \<bar>registered r\<bar>) \<le> (\<Sum>r\<leftarrow>xs. \<bar>casual r\<bar> + \<bar>registered r\<bar>)"
    by (rule sum_list_mono) simp
  from this bound have b: "(\<Sum>r\<leftarrow>xs. \<bar>registered r\<bar>) < 2 ^ 63" by (rule le_less_trans)
  have "(\<Sum>r\<leftarrow>xs. \<bar>cnt r\<bar>) \<le> (\<Sum>r\<leftarrow>xs. \<bar>casual r\<bar> + \<bar>registered r\<bar>)"
  proof (rule sum_list_mono)
    fix r assume "r \<in> set xs"
    with inv have "cnt r = casual r + registered r" by simp
    then show "\<bar>cnt r\<bar> \<le> \<bar>casual r\<bar> + \<bar>registered r\<bar>" by simp
  qed
  from this bound have c: "(\<Sum>r\<leftarrow>xs. \<bar>cnt r\<bar>) < 2 ^ 63" by (rule le_less_trans)
  have "sum_list (map casual (filter P xs)) + sum_list (map registered (filter P xs))
          = sum_list (map cnt (filter P xs))"
    using inv by (intro sum_list_counts) simp
  then show ?thesis
    by (simp only: series_sum_exact [OF a] series_sum_exact [OF b] series_sum_exact [OF c])
qed

lemma weathersit_agg_total: "x \<noteq> [] \<Longrightarrow> \<exists>m. weathersit_agg x = Inr m"
  by (cases x; cases "mode x") (simp_all add: weathersit_agg_def)

lemma daily_row_Inr:
  assumes "daily_row kg = Inr d"
  shows "date d = fst kg"
    and "daily_agg.total_rentals d = series_sum (map cnt (snd kg))"
    and "daily_agg.casual_users d = series_sum (map casual (snd kg))"
    and "daily_agg.registered_users d = series_sum (map registered (snd kg))"
    and "weathersit_agg (map weathersit (snd kg)) = Inr (most_common_weather d)"
  using assms by (auto simp: daily_row_def Let_def bind_Inr_iff)

lemma daily_row_total: "snd kg \<noteq> [] \<Longrightarrow> \<exists>d. daily_row kg = Inr d"
  using weathersit_agg_total[of "map weathersit (snd kg)"]
  by (auto simp: daily_row_def Let_def)

lemma daily_total: "\<exists>daily. traverse daily_row (groupby dteday df) = Inr daily"
  by (rule traverse_total) (simp add: daily_row_total groupby_nonempty)

lemma weekly_row_simps [simp]:
  "weekly_agg.year (weekly_row kg) = fst (fst kg)"
  "weekly_agg.week (weekly_row kg) = snd (fst kg)"
  "weekly_agg.total_rentals (weekly_row kg) = series_sum (map cnt (snd kg))"
  "weekly_agg.casual_users (weekly_row kg) = series_sum (map casual (snd kg))"
  "weekly_agg.registered_users (weekly_row kg) = series_sum (map registered (snd kg))"
  "week_start (weekly_row kg) = series_min (map dteday (snd kg))"
  "week_end (weekly_row kg) = series_max (map dteday (snd kg))"
  by (simp_all add: weekly_row_def Let_def)

lemma add_year_week_simps [simp]:
  "final_row.year (add_year_week r) = map_option dt_year (dteday r)"
  "final_row.week (add_year_week r) = map_option iso_week (dteday r)"
  "enriched_row.truncate (add_year_week r) = r"
  "dteday (add_year_week r) = dteday r"
  "casual (add_year_week r) = casual r"
  "registered (add_year_week r) = registered r"
  "cnt (add_year_week r) = cnt r"
  by (simp_all add: add_year_week_def enriched_row.defs final_row.defs)

lemma year_week_add_year_week:
  "year_week (add_year_week r) = map_option (\<lambda>d. (dt_year d, iso_week d)) (dteday r)"
  by (cases "dteday r") (simp_all add: year_week_def)

lemma year_week_None: "year_week (add_year_week r) = None \<longleftrightarrow> dteday r = None"
  by (simp add: year_week_add_year_week)

lemma year_week_dated:
  assumes "\<forall>r \<in> set df. dteday r \<noteq> None"
  shows "\<forall>r \<in> set (map add_year_week df). year_week r \<noteq> None"
proof
  fix r assume "r \<in> set (map add_year_week df)"
  then obtain r0 where r0: "r0 \<in> set df" "r = add_year_week r0" by auto
  from assms r0(1) have "dteday r0 \<noteq> None" ..
  then show "year_week r \<noteq> None"
    by (simp only: r0(2) year_week_None not_False_eq_True)
qed

lemma transform_aggregations_Inr:
  "transform_aggregations df = Inr (final, daily, weekly) \<longleftrightarrow>
     list_all2 (\<lambda>kg d. daily_row kg = Inr d) (groupby dteday df) daily
   \<and> final = map add_year_week df
   \<and> weekly = map weekly_row (groupby year_week (map add_year_week df))"
  by (auto simp: transform_aggregations_def Let_def bind_Inr_iff traverse_Inr_iff)

lemma transform_aggregations_total:
  "\<exists>final daily weekly. transform_aggregations df = Inr (final, daily, weekly)"
  using daily_total[of df] by (auto simp: transform_aggregations_def Let_def)

lemmas aggregator_eval =
  transform_aggregations_def groupby_def daily_row_def weekly_row_def add_year_week_def
  year_week_def series_sum_def wrap_int64_def
  weathersit_agg_def mode_def mean_def series_min_def series_max_def
  transform_feature_engineering_def add_features_def
  season_map_def weather_map_def day_map_def month_map_def
  isocalendar_def iso_week_def iso_year_def isoweek1monday_def ymd2ord_def days_before_year_def
  days_before_month_def is_leap_def dt_year_def dt_month_def dt_day_def
  cleaned_row.defs enriched_row.defs final_row.defs

lemma fold_max_0: "fold max ys (0::nat) = Max (insert 0 (set ys))"
  using Max.set_eq_fold[of 0 ys] by simp

lemma top_count:
  assumes "v \<in> set xs"
  shows "count_list xs v = Max (insert 0 (count_list xs ` set xs))
           \<longleftrightarrow> (\<forall>u \<in> set xs. count_list xs u \<le> count_list xs v)"
proof
  assume "count_list xs v = Max (insert 0 (count_list xs ` set xs))"
  then show "\<forall>u \<in> set xs. count_list xs u \<le> count_list xs v"
    by simp
next
  assume "\<forall>u \<in> set xs. count_list xs u \<le> count_list xs v"
  then have "Max (insert 0 (count_list xs ` set xs)) = count_list xs v"
    using assms by (intro Max_eqI) auto
  then show "count_list xs v = Max (insert 0 (count_list xs ` set xs))" by simp
qed

lemma set_mode: "set (mode xs) = modes xs"
  using top_count[of _ xs] by (auto simp: mode_def modes_def Let_def fold_max_0)

lemma mode_sorted_list: "mode xs = sorted_list_of_set (modes xs)"
proof -
  define ys where "ys = filter (\<lambda>v. count_list xs v = fold max (map (count_list xs) xs) 0) xs"
  have m: "mode xs = sort (remdups ys)"
    by (simp only: mode_def Let_def ys_def)
  have "sort (remdups ys) = sorted_list_of_set (set (sort (remdups ys)))"
    by (simp add: sorted_list_of_set_sort_remdups)
  then have "mode xs = sorted_list_of_set (set (mode xs))"
    by (simp only: m)
  then show ?thesis by (simp only: set_mode)
qed

lemma modes_nonempty: "xs \<noteq> [] \<Longrightarrow> modes xs \<noteq> {}"
proof -
  assume "xs \<noteq> []"
  then have "Max (count_list xs ` set xs) \<in> count_list xs ` set xs"
    by (intro Max_in) auto
  then obtain v where v: "v \<in> set xs" "count_list xs v = Max (count_list xs ` set xs)"
    by auto
  then have "\<forall>u \<in> set xs. count_list xs u \<le> count_list xs v" by simp
  with v(1) show ?thesis by (auto simp: modes_def)
qed

lemma finite_modes: "finite (modes xs)"
  by (simp add: modes_def)

lemma weathersit_agg_Min:
  assumes "xs \<noteq> []"
  shows "weathersit_agg xs = Inr (Min (modes xs))"
proof -
  from assms have ne: "modes xs \<noteq> {}" by (rule modes_nonempty)
  then have "mode xs = Min (modes xs) # sorted_list_of_set (modes xs - {Min (modes xs)})"
    unfolding mode_sorted_list by (intro sorted_list_of_set_nonempty finite_modes)
  then show ?thesis by (simp add: weathersit_agg_def)
qed

lemma modes_mset: "mset xs = mset ys \<Longrightarrow> modes xs = modes ys"
proof -
  assume eq: "mset xs = mset ys"
  then have "set xs = set ys" by (rule mset_eq_setD)
  moreover have "count_list xs = count_list ys"
    using eq by (metis count_mset ext)
  ultimately show ?thesis by (simp add: modes_def)
qed

lemma daily_rows:
  assumes "transform_aggregations df = Inr (final, daily, weekly)"
  shows "map date daily = sorted_list_of_set {d. Some d \<in> dteday ` set df}"
    and "\<forall>d \<in> set daily.
           most_common_weather d
             = Min (modes (map weathersit (filter (\<lambda>r. dteday r = Some (date d)) df)))"
proof -
  from assms have d: "list_all2 (\<lambda>kg d. daily_row kg = Inr d) (groupby dteday df) daily"
    by (simp add: transform_aggregations_Inr)
  then have "list_all2 (\<lambda>kg d. date d = fst kg) (groupby dteday df) daily"
    by (rule list_all2_mono) (simp add: daily_row_Inr)
  then have "map date daily = map fst (groupby dteday df)"
    by (rule list_all2_map_eq)
  then show "map date daily = sorted_list_of_set {d. Some d \<in> dteday ` set df}"
    by (simp only: groupby_keys)
  show "\<forall>d \<in> set daily.
           most_common_weather d
             = Min (modes (map weathersit (filter (\<lambda>r. dteday r = Some (date d)) df)))"
  proof
    fix x assume "x \<in> set daily"
    with d have "\<exists>kg \<in> set (groupby dteday df). daily_row kg = Inr x"
      by (rule list_all2_obtain_left)
    then obtain kg where kg: "kg \<in> set (groupby dteday df)" "daily_row kg = Inr x" ..
    from kg(1) have g: "snd kg = filter (\<lambda>r. dteday r = Some (fst kg)) df"
      by (rule groupby_group)
    from kg(1) have "map weathersit (snd kg) \<noteq> []"
      by (simp add: groupby_nonempty)
    then have "weathersit_agg (map weathersit (snd kg)) = Inr (Min (modes (map weathersit (snd kg))))"
      by (rule weathersit_agg_Min)
    with daily_row_Inr(5)[OF kg(2)] have "most_common_weather x = Min (modes (map weathersit (snd kg)))"
      by simp
    then show "most_common_weather x
                 = Min (modes (map weathersit (filter (\<lambda>r. dteday r = Some (date x)) df)))"
      using g daily_row_Inr(1)[OF kg(2)] by simp
  qed
qed

section \<open>The Validator\<close>

text \<open>
  C5. On a file with the expected header on which \<open>pd.to_datetime\<close> returns (an empty
  date cell stays in the table as \<open>NaT\<close>) and that has at least one date, the Validator
  succeeds exactly when the year of every date of the table is 2011 or 2012; otherwise
  it fails with the range error that carries the least and the greatest date of the
  table. The test of the years of these two dates alone decides the condition for
  every row that has a date.
\<close>

theorem validator_date_range:
  assumes "columns = expected_columns"
    and "traverse (parse_dteday to_datetime) rows = Inr df"
    and "dropna (map dteday df) \<noteq> []"
  shows "(extract_and_validate to_datetime columns rows = Inr df
            \<longleftrightarrow> (\<forall>d \<in> set (dropna (map dteday df)). dt_year d = 2011 \<or> dt_year d = 2012))
       \<and> (extract_and_validate to_datetime columns rows = Inr df
            \<or> extract_and_validate to_datetime columns rows
                = Inl (RangeError (Some (Min (set (dropna (map dteday df)))))
                                  (Some (Max (set (dropna (map dteday df)))))))
       \<and> ((\<forall>d \<in> set (dropna (map dteday df)). dt_year d = 2011 \<or> dt_year d = 2012)
            \<longleftrightarrow> 2011 \<le> dt_year (Min (set (dropna (map dteday df))))
                \<and> dt_year (Max (set (dropna (map dteday df)))) \<le> 2012)"
proof -
  let ?ds = "map dteday df"
  note ne = assms(3)
  have run: "extract_and_validate to_datetime columns rows
               = bind (check_date_range ?ds) (\<lambda>_. Inr df)"
    by (simp add: extract_and_validate_def assms(1,2))
  have a: "extract_and_validate to_datetime columns rows = Inr df
             \<longleftrightarrow> (\<forall>d \<in> set (dropna ?ds). dt_year d = 2011 \<or> dt_year d = 2012)"
    unfolding run using check_date_range_iff[OF ne] by (auto simp: bind_Inr_iff)
  have b: "extract_and_validate to_datetime columns rows = Inr df
         \<or> extract_and_validate to_datetime columns rows
             = Inl (RangeError (Some (Min (set (dropna ?ds)))) (Some (Max (set (dropna ?ds)))))"
    unfolding run using check_date_range_cases[of ?ds] ne
    by (auto simp: series_min_Min series_max_Max)
  have c: "(\<forall>d \<in> set (dropna ?ds). dt_year d = 2011 \<or> dt_year d = 2012)
            \<longleftrightarrow> 2011 \<le> dt_year (Min (set (dropna ?ds))) \<and> dt_year (Max (set (dropna ?ds))) \<le> 2012"
    using check_date_range_iff[OF ne] ne
    by (auto simp: check_date_range_def Let_def year_ge_def year_le_def series_min_Min series_max_Max
        split: if_splits)
  from a b c show ?thesis by (intro conjI)
qed

text \<open>
  The theorem on the file of three rows, one of them without a date: the Validator
  accepts it, and the dates of the table range from 1 January 2011 to 31 December 2012.
\<close>

theorem validator_date_range_witness:
  "extract_and_validate two_dates expected_columns raw_readings
     = Inr [hour0, undated_hour, last_hour]
   \<and> dropna (map dteday [hour0, undated_hour, last_hour]) = [(2011, 1, 1), (2012, 12, 31)]
   \<and> dt_year (Min (set (dropna (map dteday [hour0, undated_hour, last_hour])))) = 2011
   \<and> dt_year (Max (set (dropna (map dteday [hour0, undated_hour, last_hour])))) = 2012"
proof -
  have parse: "traverse (parse_dteday two_dates) raw_readings
                 = Inr [hour0, undated_hour, last_hour]"
    by (simp add: parse_dteday_def to_datetime_cell_def two_dates_def raw_readings_def
        hour0_def undated_hour_def last_hour_def)
  have ds: "dropna (map dteday [hour0, undated_hour, last_hour]) = [(2011, 1, 1), (2012, 12, 31)]"
    by (simp add: hour0_def undated_hour_def last_hour_def)
  have ne: "dropna (map dteday [hour0, undated_hour, last_hour]) \<noteq> []"
    unfolding ds by simp
  have years: "\<forall>d \<in> set (dropna (map dteday [hour0, undated_hour, last_hour])).
                 dt_year d = 2011 \<or> dt_year d = 2012"
    unfolding ds by (simp add: dt_year_def)
  from validator_date_range [OF refl parse ne, THEN conjunct1, THEN iffD2, OF years]
  have "extract_and_validate two_dates expected_columns raw_readings
          = Inr [hour0, undated_hour, last_hour]" .
  moreover have "dt_year (Min (set (dropna (map dteday [hour0, undated_hour, last_hour])))) = 2011"
    "dt_year (Max (set (dropna (map dteday [hour0, undated_hour, last_hour])))) = 2012"
    unfolding ds by (simp_all add: dt_year_def)
  ultimately show ?thesis using ds by (intro conjI)
qed

section \<open>The Cleaner\<close>

text \<open>
  C6. When the Cleaner succeeds, every row it retains gets the four climate columns
  \<open>temp_celsius = temp * 41\<close>, \<open>atemp_celsius = atemp * 50\<close>,
  \<open>humidity_pct = hum * 100\<close> and \<open>windspeed_kmh = windspeed * 67\<close>, computed from the
  readings of that row, and no other column; a row with \<open>temp = 0.5\<close> gets
  \<open>temp_celsius = 20.5\<close>.
\<close>

theorem cleaner_climate_columns:
  assumes "transform_clean_and_denormalize df = Inr (out, n)"
  shows "list_all2
           (\<lambda>r r'. temp_celsius r' = temp r * 41 \<and> atemp_celsius r' = atemp r * 50
                 \<and> humidity_pct r' = hum r * 100 \<and> windspeed_kmh r' = windspeed r * 67
                 \<and> cleaned_row.more r' = ()
                 \<and> (temp r = 0.5 \<longrightarrow> temp_celsius r' = 20.5))
           (drop_duplicates (\<lambda>r. (dteday r, hr r)) df) out"
proof -
  from assms obtain df2 where
    df2: "list_all2 (\<lambda>r r'. astype_row astype_int r = Inr r')
            (drop_duplicates (\<lambda>r. (dteday r, hr r)) df) df2"
    and out: "out = map append_climate df2"
    unfolding transform_clean_and_denormalize_def clean_and_denormalize_Inr by blast
  have "list_all2 (\<lambda>r r2. temp r2 = temp r \<and> atemp r2 = atemp r \<and> hum r2 = hum r
                        \<and> windspeed r2 = windspeed r)
          (drop_duplicates (\<lambda>r. (dteday r, hr r)) df) df2"
    using df2 by (rule list_all2_mono) (simp add: astype_row_Inr)
  then show ?thesis
    unfolding out list_all2_map2 by (rule list_all2_mono) simp
qed

text \<open>The theorem on the three readings, whose temperature reading is one half.\<close>

theorem cleaner_climate_columns_witness:
  "temp hour0 = 0.5 \<and> map temp_celsius three_readings_cleaned = [20.5, 20.5]"
proof -
  have "list_all2 (\<lambda>r r'. temp r = 0.5 \<longrightarrow> temp_celsius r' = 20.5)
          (drop_duplicates (\<lambda>r. (dteday r, hr r)) three_readings) three_readings_cleaned"
    using cleaner_climate_columns [OF three_readings_run]
    by (rule list_all2_mono) simp
  then show ?thesis
    by (simp add: drop_duplicates_def three_readings_def three_readings_cleaned_def hour0_def)
qed

text \<open>
  C8, as stated, fails. The two readings at 3.2 and 3.7 hours of one day differ before
  the coercion, so the first run keeps both and removes nothing; both become hour 3, so
  a second run finds one duplicate and returns one row.
\<close>

theorem cleaner_rerun_counterexample:
  "transform_clean_and_denormalize fractional_hours = Inr (fractional_hours_cleaned, 0)
   \<and> transform_clean_and_denormalize_cleaned fractional_hours_cleaned
       = Inr ([hd fractional_hours_cleaned], 1)"
  by (simp add: cleaner_eval fractional_hours_def fractional_hours_cleaned_def hour0_def hour0_cleaned_def)

text \<open>
  C8, amended. On a validated table in which the coercion to integer does not make two
  different hour values of one date equal (every table whose hour column is of integers
  is one), the Cleaner applied to its own output removes no duplicate and returns that
  output unchanged.
\<close>

theorem cleaner_idempotent:
  assumes inj: "\<forall>r \<in> set df. \<forall>r' \<in> set df.
                  dteday r = dteday r' \<and> astype_int (hr r) = astype_int (hr r') \<longrightarrow> hr r = hr r'"
    and run: "transform_clean_and_denormalize df = Inr (out, n)"
  shows "transform_clean_and_denormalize_cleaned out = Inr (out, 0)"
proof -
  let ?key = "\<lambda>r. (dteday r, hr r)"
  let ?df1 = "drop_duplicates ?key df"
  from run obtain df2 where
    df2: "list_all2 (\<lambda>r r'. astype_row astype_int r = Inr r') ?df1 df2"
    and out: "out = map append_climate df2"
    unfolding transform_clean_and_denormalize_def clean_and_denormalize_Inr by blast
  have sub: "set ?df1 \<subseteq> set df"
    by (simp add: drop_duplicates_def set_drop_seen)
  have "distinct (map ?key ?df1)"
    by (simp add: drop_duplicates_def distinct_drop_seen)
  with df2 have "distinct (map (\<lambda>r. (dteday r, hr r)) df2)"
  proof (rule distinct_map_list_all2)
    fix x x' y y'
    assume x: "x \<in> set ?df1" "x' \<in> set ?df1"
      and y: "astype_row astype_int x = Inr y" "astype_row astype_int x' = Inr y'"
      and eq: "(dteday y, hr y) = (dteday y', hr y')"
    from astype_row_Inr[OF y(1)] astype_row_Inr[OF y(2)] eq
    have "dteday x = dteday x'" "astype_int (hr x) = astype_int (hr x')" by simp_all
    with inj x sub show "(dteday x, hr x) = (dteday x', hr x')" by auto
  qed
  then have "distinct (map (\<lambda>r. (dteday r, hr r)) out)"
    by (simp add: out comp_def)
  then have dd: "drop_duplicates (\<lambda>r. (dteday r, hr r)) out = out"
    by (simp add: drop_duplicates_def drop_seen_id)
  have tr: "list_all2 (\<lambda>r r'. astype_row Inr r = Inr r') out out"
    by (simp add: list_all2_same astype_row_id)
  have ow: "map overwrite_climate out = out"
    by (simp add: out overwrite_append_climate)
  show ?thesis
    unfolding transform_clean_and_denormalize_cleaned_def clean_and_denormalize_Inr dd
    using tr ow by auto
qed

text \<open>The theorem on the three readings, whose hours are integers.\<close>

theorem cleaner_idempotent_witness:
  "transform_clean_and_denormalize_cleaned three_readings_cleaned = Inr (three_readings_cleaned, 0)"
proof -
  have "\<forall>r \<in> set three_readings. \<forall>r' \<in> set three_readings.
          dteday r = dteday r' \<and> astype_int (hr r) = astype_int (hr r') \<longrightarrow> hr r = hr r'"
    by (simp add: three_readings_def hour0_def astype_int_def)
  then show ?thesis
    using three_readings_run by (rule cleaner_idempotent)
qed

text \<open>
  C10. On a validated table whose eight categorical columns hold integers, the Cleaner
  succeeds; the 17 original columns of its output are the rows of the input at the
  positions that no earlier row shares its date and hour with, in the order of the
  input, with every value unchanged; the number of duplicates it reports is the number
  of rows dropped.
\<close>

theorem cleaner_frame:
  assumes "\<forall>r \<in> set df. int_valued r"
  shows "\<exists>out n. transform_clean_and_denormalize df = Inr (out, n)
           \<and> map as_read out =
               map ((!) df)
                 (filter (\<lambda>i. (dteday (df ! i), hr (df ! i))
                                 \<notin> (\<lambda>r. (dteday r, hr r)) ` set (take i df))
                    [0..<length df])
           \<and> subseq (map as_read out) df
           \<and> n = length df - length out"
proof -
  let ?key = "\<lambda>r. (dteday r, hr r)"
  let ?df1 = "drop_duplicates ?key df"
  have sub: "set ?df1 \<subseteq> set df"
    by (simp add: drop_duplicates_def set_drop_seen)
  with assms have iv: "\<And>r. r \<in> set ?df1 \<Longrightarrow> int_valued r" by auto
  then obtain df2 where "traverse (astype_row astype_int) ?df1 = Inr df2"
    using traverse_total[of ?df1 "astype_row astype_int"] astype_row_int_valued by blast
  then have df2: "list_all2 (\<lambda>r r'. astype_row astype_int r = Inr r') ?df1 df2"
    by (simp add: traverse_Inr_iff)
  define out where "out = map append_climate df2"
  have "list_all2 (\<lambda>r r'. as_read r' = r) ?df1 df2"
    using df2 iv by (auto intro: as_read_astype_row simp: list_all2_conv_all_nth)
  then have "map as_read df2 = ?df1"
    by (auto simp: list_all2_conv_all_nth intro!: nth_equalityI)
  then have view: "map as_read out = ?df1"
    by (simp add: out_def comp_def as_read_append_climate)
  have len: "length out = length ?df1"
    using df2 by (simp add: out_def list_all2_lengthD)
  have run: "transform_clean_and_denormalize df = Inr (out, length df - length out)"
    unfolding transform_clean_and_denormalize_def clean_and_denormalize_Inr len
    using df2 out_def by blast
  have nth: "?df1 = map ((!) df)
               (filter (\<lambda>i. ?key (df ! i) \<notin> ?key ` set (take i df)) [0..<length df])"
    unfolding drop_duplicates_def by (subst drop_seen_nth) simp
  have "subseq ?df1 df"
    by (simp add: drop_duplicates_def subseq_drop_seen)
  with run view nth show ?thesis by metis
qed

text \<open>The theorem on the three readings: the first two are kept, the third is dropped.\<close>

theorem cleaner_frame_witness:
  "list_all int_valued three_readings
   \<and> map as_read three_readings_cleaned = [three_readings ! 0, three_readings ! 1]
   \<and> subseq (map as_read three_readings_cleaned) three_readings"
proof -
  have iv: "\<forall>r \<in> set three_readings. int_valued r"
    by (simp add: three_readings_def hour0_def int_valued_def is_int_def)
  have idx: "filter (\<lambda>i. (dteday (three_readings ! i), hr (three_readings ! i))
                          \<notin> (\<lambda>r. (dteday r, hr r)) ` set (take i three_readings))
               [0..<length three_readings] = [0, 1]"
    by (simp add: three_readings_def hour0_def upt_rec take_Suc_conv_app_nth)
  from cleaner_frame [OF iv] obtain out n where
    run: "transform_clean_and_denormalize three_readings = Inr (out, n)"
    and view: "map as_read out =
                 map ((!) three_readings)
                   (filter (\<lambda>i. (dteday (three_readings ! i), hr (three_readings ! i))
                                   \<notin> (\<lambda>r. (dteday r, hr r)) ` set (take i three_readings))
                      [0..<length three_readings])"
    and sub: "subseq (map as_read out) three_readings"
    by blast
  from run three_readings_run have "out = three_readings_cleaned" by simp
  with view sub idx iv show ?thesis
    by (simp add: list_all_iff)
qed

section \<open>The Feature Enricher\<close>

text \<open>
  C7. The Enricher keeps the hour of every row, and the flag \<open>is_peak_hour\<close> of a
  row is true exactly when its hour is one of 7, 8, 9, 17, 18 and 19; the hours 6, 10,
  16 and 20 are not peak hours.
\<close>

theorem peak_hour_flag:
  "list_all2 (\<lambda>r r'. hr r' = hr r \<and> (is_peak_hour r' \<longleftrightarrow> hr r \<in> {7, 8, 9, 17, 18, 19}))
     df (transform_feature_engineering df)
   \<and> map (\<lambda>h. is_peak_hour (add_features (r\<lparr>hr := h\<rparr>))) [6, 7, 8, 9, 10, 16, 17, 18, 19, 20]
       = [False, True, True, True, False, False, True, True, True, False]"
proof -
  have "(7 \<le> h \<and> h \<le> 9) \<or> (17 \<le> h \<and> h \<le> 19) \<longleftrightarrow> h \<in> {7, 8, 9, 17, 18, 19}" for h :: int
    by auto
  then show ?thesis
    by (simp add: transform_feature_engineering_def list_all2_map2 list_all2_same)
qed

text \<open>
  C3, as stated, fails. On the row with season code 5 the Enricher returns a table:
  the row, with the six new columns, its \<open>season_name\<close> missing.
\<close>

theorem enricher_unmapped_counterexample:
  "transform_feature_engineering unmapped_season =
     [cleaned_row.extend (hd unmapped_season)
        (enriched_row.fields False True None (Some ''Clear/Partly Cloudy'')
           (Some ''Saturday'') (Some ''January''))]"
  by (simp add: transform_feature_engineering_def add_features_def unmapped_season_def
      hour0_cleaned_def season_map_def weather_map_def day_map_def month_map_def)

text \<open>
  C3, amended. On every cleaned table the Enricher returns a table with the same rows
  in the same order; the label of a season, weather, weekday or month code is missing
  exactly when the code lies outside 1 to 4, 1 to 4, 0 to 6 and 1 to 12.
\<close>

theorem enricher_labels:
  "list_all2
     (\<lambda>r r'. cleaned_row.truncate r' = r
            \<and> (season_name r' = None \<longleftrightarrow> \<not> (1 \<le> season r \<and> season r \<le> 4))
            \<and> (weather_desc r' = None \<longleftrightarrow> \<not> (1 \<le> weathersit r \<and> weathersit r \<le> 4))
            \<and> (day_name r' = None \<longleftrightarrow> \<not> (0 \<le> weekday r \<and> weekday r \<le> 6))
            \<and> (month_name r' = None \<longleftrightarrow> \<not> (1 \<le> mnth r \<and> mnth r \<le> 12)))
     df (transform_feature_engineering df)"
  by (simp add: transform_feature_engineering_def list_all2_map2 list_all2_same
      season_map_None weather_map_None day_map_None month_map_None)

section \<open>The Aggregator\<close>

text \<open>
  C1, as stated, fails. On the table of a dated reading with 16 rentals and an undated
  reading with 40, the daily and the weekly table have one row each with 16 rentals,
  and the \<open>cnt\<close> column sums to 56. On the two readings of one day whose counts are
  the greatest \<open>int64\<close> value, the total of the day wraps to \<open>-2\<close> where the integers
  of the \<open>cnt\<close> column add up to \<open>2^64 - 2\<close>.
\<close>

theorem totals_missing_date_counterexample:
  "map_sum id (map daily_agg.total_rentals \<circ> fst \<circ> snd) (transform_aggregations missing_date)
     = Inr [16]
   \<and> map_sum id (map weekly_agg.total_rentals \<circ> snd \<circ> snd) (transform_aggregations missing_date)
       = Inr [16]
   \<and> sum_list (map cnt missing_date) = 56
   \<and> series_sum (map cnt missing_date) = 56
   \<and> map_sum id (map daily_agg.total_rentals \<circ> fst \<circ> snd) (transform_aggregations overflow_day)
       = Inr [- 2]
   \<and> sum_list (map cnt overflow_day) = 18446744073709551614"
  by code_simp

text \<open>
  C1, amended. On every enriched table in which every row has a date the Aggregator
  returns its three tables, and the sum of \<open>total_rentals\<close> over the daily table, the
  sum of \<open>total_rentals\<close> over the weekly table and the sum of \<open>cnt\<close> over the rows of
  the enriched table are equal as the \<open>int64\<close> sums of these columns; when the absolute
  values of \<open>cnt\<close> add up to less than \<open>2^63\<close>, the three sums are equal as integers.
\<close>

theorem totals_reconcile:
  assumes "\<forall>r \<in> set df. dteday r \<noteq> None"
  shows "\<exists>final daily weekly.
     transform_aggregations df = Inr (final, daily, weekly)
   \<and> series_sum (map daily_agg.total_rentals daily)
       = series_sum (map weekly_agg.total_rentals weekly)
   \<and> series_sum (map weekly_agg.total_rentals weekly) = series_sum (map cnt df)
   \<and> ((\<Sum>r\<leftarrow>df. \<bar>cnt r\<bar>) < 2 ^ 63 \<longrightarrow>
         sum_list (map daily_agg.total_rentals daily)
           = sum_list (map weekly_agg.total_rentals weekly)
       \<and> sum_list (map weekly_agg.total_rentals weekly) = sum_list (map cnt df))"
proof -
  obtain final daily weekly where run: "transform_aggregations df = Inr (final, daily, weekly)"
    using transform_aggregations_total by blast
  then have d: "list_all2 (\<lambda>kg d. daily_row kg = Inr d) (groupby dteday df) daily"
    and w: "weekly = map weekly_row (groupby year_week (map add_year_week df))"
    by (simp_all add: transform_aggregations_Inr)
  let ?df' = "map add_year_week df"
  have keys': "\<forall>r \<in> set ?df'. year_week r \<noteq> None"
    using assms by (rule year_week_dated)
  have "list_all2 (\<lambda>kg d. daily_agg.total_rentals d = series_sum (map cnt (snd kg)))
          (groupby dteday df) daily"
    using d by (rule list_all2_mono) (simp add: daily_row_Inr)
  then have dmap: "map daily_agg.total_rentals daily
               = map (\<lambda>kg. series_sum (map cnt (snd kg))) (groupby dteday df)"
    by (rule list_all2_map_eq)
  have wmap: "map weekly_agg.total_rentals weekly
               = map (\<lambda>kg. series_sum (map cnt (snd kg))) (groupby year_week ?df')"
    by (simp add: w comp_def)
  have cnt': "map cnt ?df' = map cnt df"
    by (simp add: comp_def)
  have dsum: "series_sum (map daily_agg.total_rentals daily) = series_sum (map cnt df)"
    unfolding dmap using assms by (rule series_sum_groupby)
  have "series_sum (map weekly_agg.total_rentals weekly) = series_sum (map cnt ?df')"
    unfolding wmap using keys' by (rule series_sum_groupby)
  then have wsum: "series_sum (map weekly_agg.total_rentals weekly) = series_sum (map cnt df)"
    by (simp only: cnt')
  have exact: "sum_list (map daily_agg.total_rentals daily)
                 = sum_list (map weekly_agg.total_rentals weekly)
             \<and> sum_list (map weekly_agg.total_rentals weekly) = sum_list (map cnt df)"
    if bound: "(\<Sum>r\<leftarrow>df. \<bar>cnt r\<bar>) < 2 ^ 63"
  proof -
    have "map (\<lambda>kg. series_sum (map cnt (snd kg))) (groupby dteday df)
            = map (\<lambda>kg. sum_list (map cnt (snd kg))) (groupby dteday df)"
    proof (rule map_cong [OF refl])
      fix kg assume "kg \<in> set (groupby dteday df)"
      then have "snd kg = filter (\<lambda>r. dteday r = Some (fst kg)) df"
        by (rule groupby_group)
      then show "series_sum (map cnt (snd kg)) = sum_list (map cnt (snd kg))"
        using series_sum_exact [OF bound] by simp
    qed
    then have "sum_list (map daily_agg.total_rentals daily)
                 = (\<Sum>kg\<leftarrow>groupby dteday df. sum_list (map cnt (snd kg)))"
      by (simp only: dmap)
    then have de: "sum_list (map daily_agg.total_rentals daily) = sum_list (map cnt df)"
      by (simp only: sum_list_groupby_all [OF assms])
    have bound': "(\<Sum>r\<leftarrow>?df'. \<bar>cnt r\<bar>) < 2 ^ 63"
      using bound by (simp add: comp_def)
    have "map (\<lambda>kg. series_sum (map cnt (snd kg))) (groupby year_week ?df')
            = map (\<lambda>kg. sum_list (map cnt (snd kg))) (groupby year_week ?df')"
    proof (rule map_cong [OF refl])
      fix kg assume "kg \<in> set (groupby year_week ?df')"
      then have "snd kg = filter (\<lambda>r. year_week r = Some (fst kg)) ?df'"
        by (rule groupby_group)
      then show "series_sum (map cnt (snd kg)) = sum_list (map cnt (snd kg))"
        using series_sum_exact [OF bound'] by simp
    qed
    then have "sum_list (map weekly_agg.total_rentals weekly)
                 = (\<Sum>kg\<leftarrow>groupby year_week ?df'. sum_list (map cnt (snd kg)))"
      by (simp only: wmap)
    then have "sum_list (map weekly_agg.total_rentals weekly) = sum_list (map cnt ?df')"
      by (simp only: sum_list_groupby_all [OF keys'])
    then have we: "sum_list (map weekly_agg.total_rentals weekly) = sum_list (map cnt df)"
      by (simp only: cnt')
    from de we show ?thesis by simp
  qed
  have ex: "(\<Sum>r\<leftarrow>df. \<bar>cnt r\<bar>) < 2 ^ 63 \<longrightarrow>
         sum_list (map daily_agg.total_rentals daily)
           = sum_list (map weekly_agg.total_rentals weekly)
       \<and> sum_list (map weekly_agg.total_rentals weekly) = sum_list (map cnt df)"
    by (intro impI) (rule exact)
  have dw: "series_sum (map daily_agg.total_rentals daily)
              = series_sum (map weekly_agg.total_rentals weekly)"
    by (simp only: dsum wsum)
  from run dw wsum ex show ?thesis
    by (intro exI conjI)
qed

text \<open>
  The theorem on the three readings as enriched rows: every row has a date, the counts
  are small, and the three sums are 56.
\<close>

theorem totals_reconcile_witness:
  "list_all (\<lambda>r. dteday r \<noteq> None) (transform_feature_engineering three_readings_cleaned)
   \<and> sum_list (map cnt (transform_feature_engineering three_readings_cleaned)) = 56
   \<and> (\<exists>final daily weekly.
         transform_aggregations (transform_feature_engineering three_readings_cleaned)
           = Inr (final, daily, weekly)
       \<and> sum_list (map daily_agg.total_rentals daily) = 56
       \<and> sum_list (map weekly_agg.total_rentals weekly) = 56)"
proof -
  let ?e = "transform_feature_engineering three_readings_cleaned"
  have dated: "\<forall>r \<in> set ?e. dteday r \<noteq> None"
    by (simp add: transform_feature_engineering_def three_readings_cleaned_def hour0_cleaned_def)
  have total: "sum_list (map cnt ?e) = 56"
    by (simp add: transform_feature_engineering_def three_readings_cleaned_def hour0_cleaned_def)
  have bound: "(\<Sum>r\<leftarrow>?e. \<bar>cnt r\<bar>) < 2 ^ 63"
    by (simp add: transform_feature_engineering_def three_readings_cleaned_def hour0_cleaned_def)
  from totals_reconcile [OF dated] obtain final daily weekly where
    run: "transform_aggregations ?e = Inr (final, daily, weekly)"
    and ex: "(\<Sum>r\<leftarrow>?e. \<bar>cnt r\<bar>) < 2 ^ 63 \<longrightarrow>
         sum_list (map daily_agg.total_rentals daily)
           = sum_list (map weekly_agg.total_rentals weekly)
       \<and> sum_list (map weekly_agg.total_rentals weekly) = sum_list (map cnt ?e)"
    by (elim exE conjE)
  from ex [THEN mp, OF bound] total
  have "sum_list (map daily_agg.total_rentals daily) = 56"
    "sum_list (map weekly_agg.total_rentals weekly) = 56"
    by simp_all
  moreover have "list_all (\<lambda>r. dteday r \<noteq> None) ?e"
    using dated by (simp add: list_all_iff)
  ultimately show ?thesis
    using run total by (intro conjI exI)
qed

text \<open>
  C2. The weekly table is keyed by the calendar year of the date and its ISO week, not
  by its ISO year: 1 January 2012 (ISO week 52 of 2011) and 30 December 2012 (ISO week
  52 of 2012) fall into the one group (2012, 52), whose \<open>week_start\<close> and \<open>week_end\<close> are
  then a year apart.
\<close>

theorem weekly_key_at_year_end:
  "(iso_year (2012, 1, 1), iso_week (2012, 1, 1)) = (2011, 52)
   \<and> (iso_year (2012, 12, 30), iso_week (2012, 12, 30)) = (2012, 52)
   \<and> map_sum id (\<lambda>out. snd (snd out)) (transform_aggregations year_end_days)
       = Inr [\<lparr>year = 2012, week = 52, total_rentals = 32, casual_users = 6,
               registered_users = 26, avg_temp_celsius = Some 20.5,
               avg_humidity_pct = Some 81, avg_windspeed_kmh = Some 0,
               week_start = Some (2012, 1, 1), week_end = Some (2012, 12, 30)\<rparr>]"
  by code_simp

text \<open>
  C9. The daily table has one row for each date of the enriched table, and its
  \<open>most_common_weather\<close> is the least of the weather codes of highest frequency among
  the rows of that date: the least of the tied codes when several tie. The Aggregator
  returns the same dates with the same \<open>most_common_weather\<close> on every table with the
  same rows in another order.
\<close>

theorem most_common_weather_tie:
  assumes "mset df' = mset df"
  shows "\<exists>final daily weekly final' daily' weekly'.
           transform_aggregations df = Inr (final, daily, weekly)
         \<and> transform_aggregations df' = Inr (final', daily', weekly')
         \<and> map date daily = sorted_list_of_set {d. Some d \<in> dteday ` set df}
         \<and> (\<forall>d \<in> set daily.
               most_common_weather d
                 = Min (modes (map weathersit (filter (\<lambda>r. dteday r = Some (date d)) df))))
         \<and> map (\<lambda>d. (date d, most_common_weather d)) daily'
             = map (\<lambda>d. (date d, most_common_weather d)) daily"
proof -
  obtain final daily weekly where run: "transform_aggregations df = Inr (final, daily, weekly)"
    using transform_aggregations_total by blast
  obtain final' daily' weekly' where run': "transform_aggregations df' = Inr (final', daily', weekly')"
    using transform_aggregations_total by blast
  let ?F = "\<lambda>t k. Min (modes (map weathersit (filter (\<lambda>r. dteday r = Some k) t)))"
  have F: "?F df' k = ?F df k" for k
  proof -
    have "mset (map weathersit (filter (\<lambda>r. dteday r = Some k) df'))
            = mset (map weathersit (filter (\<lambda>r. dteday r = Some k) df))"
      using assms by (simp add: mset_filter)
    then have "modes (map weathersit (filter (\<lambda>r. dteday r = Some k) df'))
            = modes (map weathersit (filter (\<lambda>r. dteday r = Some k) df))"
      by (rule modes_mset)
    then show ?thesis by (rule arg_cong)
  qed
  have "set df' = set df"
    using assms by (rule mset_eq_setD)
  then have keys: "{d. Some d \<in> dteday ` set df'} = {d. Some d \<in> dteday ` set df}"
    by simp
  have a: "map (\<lambda>d. (date d, most_common_weather d)) daily
             = map (\<lambda>k. (k, ?F df k)) (map date daily)"
    using daily_rows(2)[OF run] by (simp add: comp_def)
  have b: "map (\<lambda>d. (date d, most_common_weather d)) daily'
             = map (\<lambda>k. (k, ?F df' k)) (map date daily')"
    using daily_rows(2)[OF run'] by (simp add: comp_def)
  have "map (\<lambda>d. (date d, most_common_weather d)) daily'
          = map (\<lambda>d. (date d, most_common_weather d)) daily"
    by (simp only: a b daily_rows(1)[OF run] daily_rows(1)[OF run'] keys F)
  with run run' daily_rows[OF run] show ?thesis
    by (intro exI conjI)
qed

text \<open>
  The theorem on the five readings and on the same readings in reverse order: the codes
  1 and 2 tie, and 1 is reported.
\<close>

theorem most_common_weather_tie_witness:
  "mset (rev tied_weather) = mset tied_weather
   \<and> modes (map weathersit tied_weather) = {1, 2}
   \<and> map_sum id (\<lambda>out. map (\<lambda>d. (date d, most_common_weather d)) (fst (snd out)))
        (transform_aggregations (rev tied_weather)) = Inr [((2011, 1, 1), 1)]"
proof -
  have perm: "mset (rev tied_weather) = mset tied_weather"
    by simp
  have tied: "modes (map weathersit tied_weather) = {1, 2}"
    by (auto simp: modes_def tied_weather_def transform_feature_engineering_def hour0_cleaned_def)
  have direct: "map_sum id (\<lambda>out. map (\<lambda>d. (date d, most_common_weather d)) (fst (snd out)))
        (transform_aggregations tied_weather) = Inr [((2011, 1, 1), 1)]"
    by code_simp
  from most_common_weather_tie [OF perm]
  obtain final daily weekly final' daily' weekly' where
    run: "transform_aggregations tied_weather = Inr (final, daily, weekly)"
    and run': "transform_aggregations (rev tied_weather) = Inr (final', daily', weekly')"
    and same: "map (\<lambda>d. (date d, most_common_weather d)) daily'
                 = map (\<lambda>d. (date d, most_common_weather d)) daily"
    by (elim exE conjE)
  from direct run have "map (\<lambda>d. (date d, most_common_weather d)) daily = [((2011, 1, 1), 1)]"
    by simp
  with same run' have "map_sum id (\<lambda>out. map (\<lambda>d. (date d, most_common_weather d)) (fst (snd out)))
        (transform_aggregations (rev tied_weather)) = Inr [((2011, 1, 1), 1)]"
    by simp
  with perm tied show ?thesis
    by (intro conjI)
qed

section \<open>The counts of every stage\<close>

text \<open>
  C4, as stated, fails. Each of the two readings of one day whose counts are the
  greatest \<open>int64\<close> value satisfies \<open>casual + registered = cnt\<close>; in the daily table the
  casual and the registered total of the day are that value each, and the total of
  rentals has wrapped to \<open>-2\<close>.
\<close>

theorem counts_overflow_counterexample:
  "casual (overflow_day ! 0) + registered (overflow_day ! 0) = cnt (overflow_day ! 0)
   \<and> casual (overflow_day ! 1) + registered (overflow_day ! 1) = cnt (overflow_day ! 1)
   \<and> map_sum id (map daily_agg.casual_users \<circ> fst \<circ> snd) (transform_aggregations overflow_day)
       = Inr [9223372036854775807]
   \<and> map_sum id (map daily_agg.registered_users \<circ> fst \<circ> snd) (transform_aggregations overflow_day)
       = Inr [9223372036854775807]
   \<and> map_sum id (map daily_agg.total_rentals \<circ> fst \<circ> snd) (transform_aggregations overflow_day)
       = Inr [- 2]
   \<and> (9223372036854775807 :: int) + 9223372036854775807 \<noteq> - 2"
  by code_simp

text \<open>
  C4, amended. The Validator, the Cleaner and the Enricher leave \<open>casual\<close>,
  \<open>registered\<close> and \<open>cnt\<close> of every row they keep as they are, so a table in which
  \<open>casual + registered = cnt\<close> holds in every row stays one. On such an enriched table
  the Aggregator returns; every row of the row-level table it hands on satisfies the
  equation; every row of the daily and of the weekly table satisfies
  \<open>casual_users + registered_users = total_rentals\<close> in the wrap-around arithmetic of
  \<open>int64\<close>, and as integers when the absolute values of \<open>casual\<close> and \<open>registered\<close>
  over the table add up to less than \<open>2^63\<close>.
\<close>

theorem counts_invariant:
  "(extract_and_validate to_datetime columns rows = Inr v \<longrightarrow>
      map (\<lambda>r. (casual r, registered r, cnt r)) v = map (\<lambda>r. (casual r, registered r, cnt r)) rows)
   \<and> (transform_clean_and_denormalize df = Inr (out, n) \<longrightarrow>
        map (\<lambda>r. (casual r, registered r, cnt r)) out
          = map (\<lambda>r. (casual r, registered r, cnt r)) (drop_duplicates (\<lambda>r. (dteday r, hr r)) df)
        \<and> ((\<forall>r \<in> set df. casual r + registered r = cnt r)
              \<longrightarrow> (\<forall>r \<in> set out. casual r + registered r = cnt r)))
   \<and> map (\<lambda>r. (casual r, registered r, cnt r)) (transform_feature_engineering c)
        = map (\<lambda>r. (casual r, registered r, cnt r)) c
   \<and> ((\<forall>r \<in> set e. casual r + registered r = cnt r) \<longrightarrow>
        (\<exists>final daily weekly.
            transform_aggregations e = Inr (final, daily, weekly)
          \<and> (\<forall>d \<in> set daily.
                wrap_int64 (daily_agg.casual_users d + daily_agg.registered_users d)
                  = daily_agg.total_rentals d)
          \<and> (\<forall>w \<in> set weekly.
                wrap_int64 (weekly_agg.casual_users w + weekly_agg.registered_users w)
                  = weekly_agg.total_rentals w)
          \<and> (\<forall>r \<in> set final. casual r + registered r = cnt r)
          \<and> ((\<Sum>r\<leftarrow>e. \<bar>casual r\<bar> + \<bar>registered r\<bar>) < 2 ^ 63 \<longrightarrow>
                (\<forall>d \<in> set daily.
                   daily_agg.casual_users d + daily_agg.registered_users d
                     = daily_agg.total_rentals d)
              \<and> (\<forall>w \<in> set weekly.
                   weekly_agg.casual_users w + weekly_agg.registered_users w
                     = weekly_agg.total_rentals w))))"
proof (intro conjI impI)
  assume "extract_and_validate to_datetime columns rows = Inr v"
  then have "list_all2 (\<lambda>r r'. parse_dteday to_datetime r = Inr r') rows v"
    by (rule extract_and_validate_Inr)
  then have "list_all2 (\<lambda>r r'. (casual r', registered r', cnt r') = (casual r, registered r, cnt r)) rows v"
    by (rule list_all2_mono) (simp add: parse_dteday_Inr)
  then show "map (\<lambda>r. (casual r, registered r, cnt r)) v = map (\<lambda>r. (casual r, registered r, cnt r)) rows"
    by (rule list_all2_map_eq)
next
  assume run: "transform_clean_and_denormalize df = Inr (out, n)"
  then obtain df2 where
    df2: "list_all2 (\<lambda>r r'. astype_row astype_int r = Inr r')
            (drop_duplicates (\<lambda>r. (dteday r, hr r)) df) df2"
    and out: "out = map append_climate df2"
    unfolding transform_clean_and_denormalize_def clean_and_denormalize_Inr by blast
  have "list_all2 (\<lambda>r r'. (casual r', registered r', cnt r') = (casual r, registered r, cnt r))
          (drop_duplicates (\<lambda>r. (dteday r, hr r)) df) df2"
    using df2 by (rule list_all2_mono) (simp add: astype_row_Inr)
  then have "map (\<lambda>r. (casual r, registered r, cnt r)) df2
               = map (\<lambda>r. (casual r, registered r, cnt r)) (drop_duplicates (\<lambda>r. (dteday r, hr r)) df)"
    by (rule list_all2_map_eq)
  then show eq: "map (\<lambda>r. (casual r, registered r, cnt r)) out
          = map (\<lambda>r. (casual r, registered r, cnt r)) (drop_duplicates (\<lambda>r. (dteday r, hr r)) df)"
    by (simp add: out comp_def)
  assume inv: "\<forall>r \<in> set df. casual r + registered r = cnt r"
  show "\<forall>r \<in> set out. casual r + registered r = cnt r"
  proof
    fix r' assume "r' \<in> set out"
    then have "(casual r', registered r', cnt r') \<in> set (map (\<lambda>r. (casual r, registered r, cnt r)) out)"
      by force
    then obtain r where "r \<in> set (drop_duplicates (\<lambda>r. (dteday r, hr r)) df)"
      and "(casual r', registered r', cnt r') = (casual r, registered r, cnt r)"
      unfolding eq by auto
    moreover have "set (drop_duplicates (\<lambda>r. (dteday r, hr r)) df) \<subseteq> set df"
      by (simp add: drop_duplicates_def set_drop_seen)
    ultimately show "casual r' + registered r' = cnt r'"
      using inv by auto
  qed
next
  show "map (\<lambda>r. (casual r, registered r, cnt r)) (transform_feature_engineering c)
          = map (\<lambda>r. (casual r, registered r, cnt r)) c"
    by (simp add: transform_feature_engineering_def comp_def)
next
  assume inv: "\<forall>r \<in> set e. casual r + registered r = cnt r"
  obtain final daily weekly where run: "transform_aggregations e = Inr (final, daily, weekly)"
    using transform_aggregations_total by blast
  then have d: "list_all2 (\<lambda>kg d. daily_row kg = Inr d) (groupby dteday e) daily"
    and f: "final = map add_year_week e"
    and w: "weekly = map weekly_row (groupby year_week (map add_year_week e))"
    by (simp_all add: transform_aggregations_Inr)
  have finv: "\<forall>r \<in> set final. casual r + registered r = cnt r"
    using inv by (simp add: f)
  have fsum: "(\<Sum>r\<leftarrow>final. \<bar>casual r\<bar> + \<bar>registered r\<bar>)
                = (\<Sum>r\<leftarrow>e. \<bar>casual r\<bar> + \<bar>registered r\<bar>)"
    by (simp add: f comp_def)
  have dgroup: "\<exists>k. daily_agg.casual_users x = series_sum (map casual (filter (\<lambda>r. dteday r = Some k) e))
                \<and> daily_agg.registered_users x
                    = series_sum (map registered (filter (\<lambda>r. dteday r = Some k) e))
                \<and> daily_agg.total_rentals x = series_sum (map cnt (filter (\<lambda>r. dteday r = Some k) e))"
    if "x \<in> set daily" for x
  proof -
    from d that have "\<exists>kg \<in> set (groupby dteday e). daily_row kg = Inr x"
      by (rule list_all2_obtain_left)
    then obtain kg where kg: "kg \<in> set (groupby dteday e)" "daily_row kg = Inr x" ..
    from kg(1) have "snd kg = filter (\<lambda>r. dteday r = Some (fst kg)) e"
      by (rule groupby_group)
    with daily_row_Inr(2,3,4) [OF kg(2)] show ?thesis
      by (intro exI [of _ "fst kg"]) simp
  qed
  have wgroup: "\<exists>k. weekly_agg.casual_users x
                      = series_sum (map casual (filter (\<lambda>r. year_week r = Some k) final))
                \<and> weekly_agg.registered_users x
                    = series_sum (map registered (filter (\<lambda>r. year_week r = Some k) final))
                \<and> weekly_agg.total_rentals x
                    = series_sum (map cnt (filter (\<lambda>r. year_week r = Some k) final))"
    if "x \<in> set weekly" for x
  proof -
    from that have "x \<in> weekly_row ` set (groupby year_week final)"
      by (simp add: w f)
    then obtain kg where kg: "kg \<in> set (groupby year_week final)" and x: "x = weekly_row kg" ..
    from kg have "snd kg = filter (\<lambda>r. year_week r = Some (fst kg)) final"
      by (rule groupby_group)
    then show ?thesis
      by (intro exI [of _ "fst kg"]) (simp add: x)
  qed
  have daily: "\<forall>d \<in> set daily.
      wrap_int64 (daily_agg.casual_users d + daily_agg.registered_users d) = daily_agg.total_rentals d"
  proof
    fix x assume "x \<in> set daily"
    from dgroup [OF this] group_counts_wrapped [OF inv]
    show "wrap_int64 (daily_agg.casual_users x + daily_agg.registered_users x)
            = daily_agg.total_rentals x"
      by (elim exE conjE) simp
  qed
  have weekly: "\<forall>x \<in> set weekly.
      wrap_int64 (weekly_agg.casual_users x + weekly_agg.registered_users x)
        = weekly_agg.total_rentals x"
  proof
    fix x assume "x \<in> set weekly"
    from wgroup [OF this] group_counts_wrapped [OF finv]
    show "wrap_int64 (weekly_agg.casual_users x + weekly_agg.registered_users x)
            = weekly_agg.total_rentals x"
      by (elim exE conjE) simp
  qed
  have exact: "(\<Sum>r\<leftarrow>e. \<bar>casual r\<bar> + \<bar>registered r\<bar>) < 2 ^ 63 \<longrightarrow>
                (\<forall>d \<in> set daily.
                   daily_agg.casual_users d + daily_agg.registered_users d
                     = daily_agg.total_rentals d)
              \<and> (\<forall>w \<in> set weekly.
                   weekly_agg.casual_users w + weekly_agg.registered_users w
                     = weekly_agg.total_rentals w)"
  proof (intro impI conjI ballI)
    assume bound: "(\<Sum>r\<leftarrow>e. \<bar>casual r\<bar> + \<bar>registered r\<bar>) < 2 ^ 63"
    fix x assume "x \<in> set daily"
    from dgroup [OF this] group_counts_exact [OF inv bound]
    show "daily_agg.casual_users x + daily_agg.registered_users x = daily_agg.total_rentals x"
      by (elim exE conjE) simp
  next
    assume bound: "(\<Sum>r\<leftarrow>e. \<bar>casual r\<bar> + \<bar>registered r\<bar>) < 2 ^ 63"
    then have bound': "(\<Sum>r\<leftarrow>final. \<bar>casual r\<bar> + \<bar>registered r\<bar>) < 2 ^ 63"
      by (simp only: fsum)
    fix x assume "x \<in> set weekly"
    from wgroup [OF this] group_counts_exact [OF finv bound']
    show "weekly_agg.casual_users x + weekly_agg.registered_users x = weekly_agg.total_rentals x"
      by (elim exE conjE) simp
  qed
  from run daily weekly finv exact
  show "\<exists>final daily weekly.
            transform_aggregations e = Inr (final, daily, weekly)
          \<and> (\<forall>d \<in> set daily.
                wrap_int64 (daily_agg.casual_users d + daily_agg.registered_users d)
                  = daily_agg.total_rentals d)
          \<and> (\<forall>w \<in> set weekly.
                wrap_int64 (weekly_agg.casual_users w + weekly_agg.registered_users w)
                  = weekly_agg.total_rentals w)
          \<and> (\<forall>r \<in> set final. casual r + registered r = cnt r)
          \<and> ((\<Sum>r\<leftarrow>e. \<bar>casual r\<bar> + \<bar>registered r\<bar>) < 2 ^ 63 \<longrightarrow>
                (\<forall>d \<in> set daily.
                   daily_agg.casual_users d + daily_agg.registered_users d
                     = daily_agg.total_rentals d)
              \<and> (\<forall>w \<in> set weekly.
                   weekly_agg.casual_users w + weekly_agg.registered_users w
                     = weekly_agg.total_rentals w))"
    by (intro exI conjI)
qed

text \<open>
  The theorem on the three readings, through the Cleaner, the Enricher and the
  Aggregator; their counts are small, so the equation holds as integers.
\<close>

theorem counts_invariant_witness:
  "list_all (\<lambda>r. casual r + registered r = cnt r) three_readings
   \<and> list_all (\<lambda>r. casual r + registered r = cnt r) three_readings_cleaned
   \<and> (\<exists>final daily weekly.
         transform_aggregations (transform_feature_engineering three_readings_cleaned)
           = Inr (final, daily, weekly)
       \<and> list_all (\<lambda>d. daily_agg.casual_users d + daily_agg.registered_users d
                          = daily_agg.total_rentals d) daily
       \<and> list_all (\<lambda>w. weekly_agg.casual_users w + weekly_agg.registered_users w
                          = weekly_agg.total_rentals w) weekly)"
proof -
  let ?e = "transform_feature_engineering three_readings_cleaned"
  note inst = counts_invariant
    [of two_dates expected_columns raw_readings "[hour0, undated_hour, last_hour]"
        three_readings three_readings_cleaned 1
        three_readings_cleaned ?e]
  have inv: "\<forall>r \<in> set three_readings. casual r + registered r = cnt r"
    by (simp add: three_readings_def hour0_def)
  from inst have "transform_clean_and_denormalize three_readings = Inr (three_readings_cleaned, 1) \<longrightarrow>
        map (\<lambda>r. (casual r, registered r, cnt r)) three_readings_cleaned
          = map (\<lambda>r. (casual r, registered r, cnt r)) (drop_duplicates (\<lambda>r. (dteday r, hr r)) three_readings)
        \<and> ((\<forall>r \<in> set three_readings. casual r + registered r = cnt r)
              \<longrightarrow> (\<forall>r \<in> set three_readings_cleaned. casual r + registered r = cnt r))"
    by (elim conjE)
  from this [THEN mp, OF three_readings_run, THEN conjunct2, THEN mp, OF inv]
  have inv_c: "\<forall>r \<in> set three_readings_cleaned. casual r + registered r = cnt r" .
  have inv_e: "\<forall>r \<in> set ?e. casual r + registered r = cnt r"
    using inv_c by (simp add: transform_feature_engineering_def)
  have bound: "(\<Sum>r\<leftarrow>?e. \<bar>casual r\<bar> + \<bar>registered r\<bar>) < 2 ^ 63"
    by (simp add: transform_feature_engineering_def three_readings_cleaned_def hour0_cleaned_def)
  from inst have "(\<forall>r \<in> set ?e. casual r + registered r = cnt r) \<longrightarrow>
        (\<exists>final daily weekly.
            transform_aggregations ?e = Inr (final, daily, weekly)
          \<and> (\<forall>d \<in> set daily.
                wrap_int64 (daily_agg.casual_users d + daily_agg.registered_users d)
                  = daily_agg.total_rentals d)
          \<and> (\<forall>w \<in> set weekly.
                wrap_int64 (weekly_agg.casual_users w + weekly_agg.registered_users w)
                  = weekly_agg.total_rentals w)
          \<and> (\<forall>r \<in> set final. casual r + registered r = cnt r)
          \<and> ((\<Sum>r\<leftarrow>?e. \<bar>casual r\<bar> + \<bar>registered r\<bar>) < 2 ^ 63 \<longrightarrow>
                (\<forall>d \<in> set daily.
                   daily_agg.casual_users d + daily_agg.registered_users d
                     = daily_agg.total_rentals d)
              \<and> (\<forall>w \<in> set weekly.
                   weekly_agg.casual_users w + weekly_agg.registered_users w
                     = weekly_agg.total_rentals w)))"
    by (elim conjE)
  from this [THEN mp, OF inv_e] obtain final daily weekly where
    run: "transform_aggregations ?e = Inr (final, daily, weekly)"
    and ex: "(\<Sum>r\<leftarrow>?e. \<bar>casual r\<bar> + \<bar>registered r\<bar>) < 2 ^ 63 \<longrightarrow>
                (\<forall>d \<in> set daily.
                   daily_agg.casual_users d + daily_agg.registered_users d
                     = daily_agg.total_rentals d)
              \<and> (\<forall>w \<in> set weekly.
                   weekly_agg.casual_users w + weekly_agg.registered_users w
                     = weekly_agg.total_rentals w)"
    by (elim exE conjE)
  note both = ex [THEN mp, OF bound]
  from both [THEN conjunct1] both [THEN conjunct2]
  have "list_all (\<lambda>d. daily_agg.casual_users d + daily_agg.registered_users d
                     = daily_agg.total_rentals d) daily"
    "list_all (\<lambda>w. weekly_agg.casual_users w + weekly_agg.registered_users w
                     = weekly_agg.total_rentals w) weekly"
    by (simp_all only: list_all_iff)
  moreover have "list_all (\<lambda>r. casual r + registered r = cnt r) three_readings"
    "list_all (\<lambda>r. casual r + registered r = cnt r) three_readings_cleaned"
    using inv inv_c by (simp_all add: list_all_iff)
  ultimately show ?thesis
    using run by (intro conjI exI)
qed

end
